theory Spec2Isabelle
  imports Main "HOL-Library.Sublist"
begin

section \<open>The documentation link validator (scripts/validate-links.py)\<close>

text \<open>
  The validator walks a directory for markdown files, extracts the links
  \<^verbatim>\<open>[text](url)\<close> of each file, classifies every link and reports the links whose
  target is missing or lies outside the repository. This theory embeds the script
  function by function. Text is a \<^typ>\<open>string\<close>; every delimiter the script looks
  for is an ASCII character. What the script asks of the operating system (resolving
  a path, probing a path, enumerating and reading files) is a field of the record
  \<open>world\<close>, fixed during one scan; what it does to the outside (opening a file,
  probing a path, writing a warning) is recorded in a trace.
\<close>

subsection \<open>Strings\<close>

text \<open>\<^verbatim>\<open>s.split(sep)\<close> for a separator of one character: never the empty list.\<close>

fun str_split :: "char \<Rightarrow> string \<Rightarrow> string list" where
  "str_split sep [] = [[]]"
| "str_split sep (c # cs) =
     (if c = sep then [] # str_split sep cs
      else (c # hd (str_split sep cs)) # tl (str_split sep cs))"

text \<open>\<^verbatim>\<open>s.startswith(p)\<close>, \<^verbatim>\<open>s.endswith(p)\<close>, \<^verbatim>\<open>p in s\<close> and \<^verbatim>\<open>s.lstrip('/')\<close>.\<close>

definition startswith :: "string \<Rightarrow> string \<Rightarrow> bool" where
  "startswith s p = prefix p s"

definition endswith :: "string \<Rightarrow> string \<Rightarrow> bool" where
  "endswith s p = suffix p s"

definition str_in :: "string \<Rightarrow> string \<Rightarrow> bool" where
  "str_in p s = sublist p s"

definition lstrip :: "char \<Rightarrow> string \<Rightarrow> string" where
  "lstrip c s = dropWhile (\<lambda>x. x = c) s"

text \<open>\<^verbatim>\<open>sep.join(xs)\<close>.\<close>

fun str_join :: "string \<Rightarrow> string list \<Rightarrow> string" where
  "str_join sep [] = []"
| "str_join sep [x] = x"
| "str_join sep (x # y # ys) = x @ sep @ str_join sep (y # ys)"

subsection \<open>Pure paths (pathlib on POSIX)\<close>

text \<open>
  A \<^verbatim>\<open>Path\<close> is its root (\<^verbatim>\<open>''\<close>, \<^verbatim>\<open>'/'\<close> or \<^verbatim>\<open>'//'\<close>) and its parts. Parsing a
  string drops empty and \<^verbatim>\<open>'.'\<close> components and keeps \<^verbatim>\<open>'..'\<close>; exactly two leading
  slashes are kept as the root \<^verbatim>\<open>'//'\<close>.
\<close>

record path =
  root :: string
  parts :: "string list"

definition path_root :: "string \<Rightarrow> string" where
  "path_root s =
     (if startswith s ''//'' \<and> \<not> startswith s ''///'' then ''//''
      else if startswith s ''/'' then ''/''
      else [])"

definition Path :: "string \<Rightarrow> path" where
  "Path s = \<lparr>root = path_root s,
            parts = filter (\<lambda>x. x \<noteq> [] \<and> x \<noteq> ''.'') (str_split CHR ''/'' s)\<rparr>"

text \<open>\<^verbatim>\<open>str(p)\<close>.\<close>

definition str :: "path \<Rightarrow> string" where
  "str p = (if root p = [] \<and> parts p = [] then ''.''
            else root p @ str_join ''/'' (parts p))"

text \<open>\<^verbatim>\<open>p / s\<close>: an absolute right operand replaces the left one.\<close>

definition joinpath :: "path \<Rightarrow> string \<Rightarrow> path" where
  "joinpath p s =
     (let q = Path s in
      if root q \<noteq> [] then q
      else \<lparr>root = root p, parts = parts p @ parts q\<rparr>)"

text \<open>\<^verbatim>\<open>p.parent\<close>: a path without parts is its own parent.\<close>

definition parent :: "path \<Rightarrow> path" where
  "parent p = (if parts p = [] then p else \<lparr>root = root p, parts = butlast (parts p)\<rparr>)"

text \<open>\<^verbatim>\<open>p.parents\<close>: the ancestors, nearest first.\<close>

definition parents :: "path \<Rightarrow> path list" where
  "parents p = map (\<lambda>n. \<lparr>root = root p, parts = take n (parts p)\<rparr>) (rev [0..<length (parts p)])"

subsection \<open>The world outside the script\<close>

text \<open>
  The exceptions the script itself anticipates: \<^verbatim>\<open>ValueError\<close> and \<^verbatim>\<open>OSError\<close>
  (\<^verbatim>\<open>IOError\<close> is the same class), each with its message.
\<close>

datatype error = ValueError string | OSError string

text \<open>
  \<open>script_path\<close> is \<^verbatim>\<open>Path(__file__).resolve()\<close>, evaluated when the module is loaded.
  \<open>fs_resolve\<close> is \<^verbatim>\<open>Path.resolve\<close>, which may raise; \<open>fs_exists\<close> is
  \<^verbatim>\<open>Path.exists\<close>, taken on the paths where it answers; \<open>fs_rglob\<close> gives, for a root, the strings of the paths that
  \<^verbatim>\<open>rglob('*.md')\<close> yields, in its order; \<open>fs_read\<close> is opening and reading a file
  as text (undecodable bytes are replaced, so only the opening and reading can fail);
  \<open>fs_print\<close> is one \<^verbatim>\<open>print\<close> to the standard output, which writes the text or raises
  (\<^verbatim>\<open>UnicodeEncodeError\<close>, a \<^verbatim>\<open>ValueError\<close>, when the stream cannot encode it).
\<close>

record world =
  script_path :: path
  fs_resolve :: "path \<Rightarrow> error + path"
  fs_exists :: "path \<Rightarrow> bool"
  fs_rglob :: "path \<Rightarrow> string list"
  fs_read :: "path \<Rightarrow> error + string"
  fs_print :: "string \<Rightarrow> error option"

datatype io_event = Open path | Exists path | Stderr string

definition REPO_ROOT :: "world \<Rightarrow> path" where
  "REPO_ROOT w = parent (parent (script_path w))"

definition rglob_md :: "world \<Rightarrow> path \<Rightarrow> path list" where
  "rglob_md w root_path = map Path (fs_rglob w root_path)"

subsection \<open>Link classification and resolution\<close>

definition is_path_safe :: "world \<Rightarrow> path \<Rightarrow> bool" where
  "is_path_safe w target_path =
     (case fs_resolve w target_path of
        Inl e \<Rightarrow> False
      | Inr resolved_target \<Rightarrow>
          (case fs_resolve w (REPO_ROOT w) of
             Inl e \<Rightarrow> False
           | Inr resolved_root \<Rightarrow>
               resolved_target = resolved_root \<or> resolved_root \<in> set (parents resolved_target)))"

definition is_external_link :: "string \<Rightarrow> bool" where
  "is_external_link link =
     (startswith link ''http://'' \<or> startswith link ''https://'' \<or> startswith link ''mailto:'')"

definition is_anchor_only :: "string \<Rightarrow> bool" where
  "is_anchor_only link = startswith link ''#''"

definition has_liquid_template :: "string \<Rightarrow> bool" where
  "has_liquid_template link = (str_in ''{{'' link \<or> str_in ''}}'' link)"

definition is_wiki_style_link :: "string \<Rightarrow> path \<Rightarrow> bool" where
  "is_wiki_style_link link file_path =
     (str_in ''docs/wiki'' (str file_path) \<and>
      \<not> endswith link ''.md'' \<and>
      \<not> endswith link ''/'' \<and>
      \<not> str_in ''/'' (hd (str_split CHR ''#'' link)))"

text \<open>
  \<open>Inr None\<close> is the script's \<^verbatim>\<open>None\<close> (unsafe path). The \<^verbatim>\<open>resolve()\<close> of a relative
  link is outside every \<^verbatim>\<open>try\<close>, so its exception leaves the function.
\<close>

definition resolve_target_path :: "world \<Rightarrow> string \<Rightarrow> path \<Rightarrow> error + path option" where
  "resolve_target_path w link file_path =
     (let clean_link = hd (str_split CHR ''#'' link) in
      case (if startswith clean_link ''/''
            then Inr (joinpath (joinpath (REPO_ROOT w) ''docs'') (lstrip CHR ''/'' clean_link))
            else fs_resolve w (joinpath (parent file_path) clean_link)) of
        Inl e \<Rightarrow> Inl e
      | Inr target \<Rightarrow> if \<not> is_path_safe w target then Inr None else Inr (Some target))"

text \<open>The result and the trace, extended by the probe when there is one.\<close>

definition check_wiki_style_link ::
  "world \<Rightarrow> string \<Rightarrow> path \<Rightarrow> io_event list \<Rightarrow> bool \<times> io_event list" where
  "check_wiki_style_link w link file_path tr =
     (let target_with_ext = joinpath (parent file_path) (link @ ''.md'') in
      if \<not> is_path_safe w target_with_ext then (False, tr)
      else (fs_exists w target_with_ext, tr @ [Exists target_with_ext]))"

subsection \<open>Link extraction\<close>

text \<open>
  One attempt of the pattern \<^verbatim>\<open>\[([^\]]*)\]\(([^)]+)\)\<close> right after an opening
  bracket: the text runs to the first \<^verbatim>\<open>]\<close>, which \<^verbatim>\<open>(\<close> must follow; the url is
  the non-empty run to the first \<^verbatim>\<open>)\<close>. Both character classes are negated, so
  the greedy run is the only one that can match. The result carries the rest of the
  input after the match.
\<close>

definition match_link :: "string \<Rightarrow> (string \<times> string \<times> string) option" where
  "match_link cs =
     (let text = takeWhile (\<lambda>c. c \<noteq> CHR '']'') cs in
      case dropWhile (\<lambda>c. c \<noteq> CHR '']'') cs of
        [] \<Rightarrow> None
      | _ # r2 \<Rightarrow>
          (case r2 of
             [] \<Rightarrow> None
           | d # r3 \<Rightarrow>
               if d \<noteq> CHR ''('' then None
               else let url = takeWhile (\<lambda>c. c \<noteq> CHR '')'') r3 in
                 if url = [] then None
                 else (case dropWhile (\<lambda>c. c \<noteq> CHR '')'') r3 of
                         [] \<Rightarrow> None
                       | _ # rest \<Rightarrow> Some (text, url, rest))))"

text \<open>\<^verbatim>\<open>re.findall\<close>: leftmost matches, each search resuming after the last match.\<close>

function find_markdown_links :: "string \<Rightarrow> (string \<times> string) list" where
  "find_markdown_links [] = []"
| "find_markdown_links (c # cs) =
     (if c = CHR ''['' then
        (case match_link cs of
           Some (text, url, rest) \<Rightarrow> (text, url) # find_markdown_links rest
         | None \<Rightarrow> find_markdown_links cs)
      else find_markdown_links cs)"
  by pat_completeness auto
termination
proof (relation "measure length")
  fix c :: char and cs :: string and x2 :: "string \<times> string \<times> string" and t :: string
    and y :: "string \<times> string" and url rest :: string
  assume "c = CHR ''[''" and "match_link cs = Some x2" and "(t, y) = x2" and "(url, rest) = y"
  then have m: "match_link cs = Some (t, url, rest)" by simp
  have d: "length (dropWhile P xs) \<le> length xs" for P and xs :: string
    by (rule length_dropWhile_le)
  from m obtain a r2 where r1: "dropWhile (\<lambda>c. c \<noteq> CHR '']'') cs = a # r2"
    by (auto simp: match_link_def Let_def split: list.splits)
  from m r1 obtain r3 where r2: "r2 = CHR ''('' # r3"
    by (auto simp: match_link_def Let_def split: list.splits if_splits)
  from m r1 r2 obtain b where r4: "dropWhile (\<lambda>c. c \<noteq> CHR '')'') r3 = b # rest"
    by (auto simp: match_link_def Let_def split: list.splits if_splits)
  have "length rest < length r3" using d [of "\<lambda>c. c \<noteq> CHR '')''" r3] r4 by simp
  moreover have "length r3 < length cs" using d [of "\<lambda>c. c \<noteq> CHR '']''" cs] r1 r2 by simp
  ultimately show "(rest, c # cs) \<in> measure length" by simp
qed simp_all

subsection \<open>The scan\<close>

record ErrorRecord =
  e_file :: string
  e_link :: string
  e_expected :: string
  e_type :: string

text \<open>
  The two accumulators of \<^verbatim>\<open>check_links\<close>, and the trace of what the scan did to the
  outside.
\<close>

record scan_state =
  errors :: "ErrorRecord list"
  checked :: "string set"
  trace :: "io_event list"

text \<open>The key \<^verbatim>\<open>f"{md_file}:{link}"\<close> of the set \<^verbatim>\<open>checked\<close>.\<close>

definition check_key :: "path \<Rightarrow> string \<Rightarrow> string" where
  "check_key md_file link = str md_file @ '':'' @ link"

text \<open>The body of the inner loop: one extracted link of \<open>md_file\<close>.\<close>

definition check_link :: "world \<Rightarrow> path \<Rightarrow> string \<Rightarrow> scan_state \<Rightarrow> error + scan_state" where
  "check_link w md_file link st =
     (if is_external_link link then Inr st
      else if is_anchor_only link then Inr st
      else if has_liquid_template link then Inr st
      else
        let clean_link = hd (str_split CHR ''#'' link) in
        if clean_link = [] then Inr st
        else
          if check_key md_file link \<in> checked st then Inr st
          else
            let st1 = st\<lparr>checked := insert (check_key md_file link) (checked st)\<rparr> in
            if is_wiki_style_link clean_link md_file then
              (case check_wiki_style_link w clean_link md_file (trace st1) of
                 (ok, tr) \<Rightarrow>
                   if \<not> ok then
                     Inr (st1\<lparr>errors := errors st1 @
                            [\<lparr>e_file = str md_file, e_link = link,
                              e_expected = str (joinpath (parent md_file) (clean_link @ ''.md'')),
                              e_type = ''wiki-style''\<rparr>],
                          trace := tr\<rparr>)
                   else Inr (st1\<lparr>trace := tr\<rparr>))
            else
              (case resolve_target_path w clean_link md_file of
                 Inl e \<Rightarrow> Inl e
               | Inr None \<Rightarrow>
                   Inr (st1\<lparr>errors := errors st1 @
                          [\<lparr>e_file = str md_file, e_link = link,
                            e_expected = ''UNSAFE PATH (outside repository)'',
                            e_type = ''security''\<rparr>]\<rparr>)
               | Inr (Some target) \<Rightarrow>
                   if \<not> fs_exists w target then
                     Inr (st1\<lparr>errors := errors st1 @
                            [\<lparr>e_file = str md_file, e_link = link,
                              e_expected = str target, e_type = ''regular''\<rparr>],
                          trace := trace st1 @ [Exists target]\<rparr>)
                   else Inr (st1\<lparr>trace := trace st1 @ [Exists target]\<rparr>)))"

text \<open>The inner loop over the links of one file.\<close>

fun check_file_links ::
  "world \<Rightarrow> path \<Rightarrow> (string \<times> string) list \<Rightarrow> scan_state \<Rightarrow> error + scan_state" where
  "check_file_links w md_file [] st = Inr st"
| "check_file_links w md_file ((text, link) # links) st =
     (case check_link w md_file link st of
        Inl e \<Rightarrow> Inl e
      | Inr st' \<Rightarrow> check_file_links w md_file links st')"

text \<open>The two \<^verbatim>\<open>continue\<close> tests on the path string of a discovered file.\<close>

definition skipped :: "path \<Rightarrow> bool" where
  "skipped md_file =
     ((str_in ''node_modules'' (str md_file) \<or> str_in ''.git'' (str md_file)) \<or>
      str_in ''docs/audit'' (str md_file))"

text \<open>
  The outer loop over the discovered files. Only \<^verbatim>\<open>OSError\<close> is caught around the
  reading; the warning goes to the error stream.
\<close>

fun check_files :: "world \<Rightarrow> path list \<Rightarrow> scan_state \<Rightarrow> error + scan_state" where
  "check_files w [] st = Inr st"
| "check_files w (md_file # files) st =
     (if skipped md_file then check_files w files st
      else
        let st1 = st\<lparr>trace := trace st @ [Open md_file]\<rparr> in
        case fs_read w md_file of
          Inl (OSError msg) \<Rightarrow>
            check_files w files
              (st1\<lparr>trace := trace st1 @
                 [Stderr (''Warning: Could not read '' @ str md_file @ '': '' @ msg)]\<rparr>)
        | Inl (ValueError msg) \<Rightarrow> Inl (ValueError msg)
        | Inr content \<Rightarrow>
            (case check_file_links w md_file (find_markdown_links content) st1 of
               Inl e \<Rightarrow> Inl e
             | Inr st' \<Rightarrow> check_files w files st'))"

definition scan :: "world \<Rightarrow> string \<Rightarrow> error + scan_state" where
  "scan w root_dir =
     check_files w (rglob_md w (Path root_dir)) \<lparr>errors = [], checked = {}, trace = []\<rparr>"

definition check_links :: "world \<Rightarrow> string \<Rightarrow> error + ErrorRecord list" where
  "check_links w root_dir = map_sum id errors (scan w root_dir)"

text \<open>\<^verbatim>\<open>str(n)\<close> for the length of a list.\<close>

function str_nat :: "nat \<Rightarrow> string" where
  "str_nat n =
     (if n < 10 then [char_of (48 + n)]
      else str_nat (n div 10) @ [char_of (48 + n mod 10)])"
  by pat_completeness auto
termination
  by (relation "measure id") auto

declare str_nat.simps [simp del]

text \<open>
  A sequence of \<^verbatim>\<open>print\<close> calls, one per string: the first that raises ends it. What is
  written is not recorded, only whether the writing raises.
\<close>

fun print_lines :: "world \<Rightarrow> string list \<Rightarrow> error option" where
  "print_lines w [] = None"
| "print_lines w (s # ss) =
     (case fs_print w s of Some e \<Rightarrow> Some e | None \<Rightarrow> print_lines w ss)"

text \<open>
  The arguments of the \<^verbatim>\<open>print\<close> calls of \<^verbatim>\<open>main\<close>, in order, with the bytes of the source
  file for the three pictographs: the banner, the report of a non-empty list
  (the heading, five calls for each record, the tips), and the two lines of success.
\<close>

definition banner :: string where
  "banner = ''=== RIPP Protocol - Documentation Link Validator ==='' @ [CHR 0x0A]"

definition record_lines :: "ErrorRecord \<Rightarrow> string list" where
  "record_lines err =
     [''File: '' @ e_file err,
      ''  Link: '' @ e_link err,
      ''  Expected: '' @ e_expected err,
      ''  Type: '' @ e_type err,
      []]"

definition report_lines :: "ErrorRecord list \<Rightarrow> string list" where
  "report_lines errs =
     [[CHR 0xE2, CHR 0x80, CHR 0x9A, CHR 0xC3, CHR 0xB9, CHR 0xC3, CHR 0xA5] @
        '' Found '' @ str_nat (length errs) @ '' broken link(s):'' @ [CHR 0x0A]] @
     concat (map record_lines errs) @
     [[CHR 0x0A, CHR 0xEF, CHR 0xA3, CHR 0xBF, CHR 0xC3, CHR 0xBC, CHR 0xC3, CHR 0xAD,
       CHR 0xC2, CHR 0xB0] @ '' Tips:'',
      ''  - Check if the file exists at the expected location'',
      ''  - Verify relative path depth (../ for parent directory)'',
      ''  - Wiki-style links should not include .md extension'',
      ''  - Use liquid template syntax for Jekyll links: {{ '' @ [CHR 0x27] @ ''/path'' @
        [CHR 0x27] @ '' | relative_url }}'']"

definition success_lines :: "string list" where
  "success_lines =
     [[CHR 0xE2, CHR 0x80, CHR 0x9A, CHR 0xC3, CHR 0xBA, CHR 0xC3, CHR 0x96] @
        '' All internal links are valid!'',
      ''   Checked markdown files in: docs/, tools/, examples/, *.md'']"

text \<open>
  \<^verbatim>\<open>main\<close>: the banner, \<^verbatim>\<open>check_links()\<close> with its default argument \<^verbatim>\<open>'.'\<close>, the report
  and the value returned. An exception of a \<^verbatim>\<open>print\<close> or of the scan leaves \<^verbatim>\<open>main\<close>.
\<close>

definition main :: "world \<Rightarrow> error + int" where
  "main w =
     (case print_lines w [banner] of
        Some e \<Rightarrow> Inl e
      | None \<Rightarrow>
          (case check_links w ''.'' of
             Inl e \<Rightarrow> Inl e
           | Inr errs \<Rightarrow>
               if errs \<noteq> [] then
                 (case print_lines w (report_lines errs) of
                    Some e \<Rightarrow> Inl e
                  | None \<Rightarrow> Inr 1)
               else
                 (case print_lines w success_lines of
                    Some e \<Rightarrow> Inl e
                  | None \<Rightarrow> Inr 0)))"

text \<open>
  The exit status of the program, \<^verbatim>\<open>sys.exit(main())\<close>: the value \<^verbatim>\<open>main\<close> returns, and 1
  when an exception leaves \<^verbatim>\<open>main\<close> (the interpreter prints the traceback and exits
  with status 1).
\<close>

definition exit_status :: "world \<Rightarrow> int" where
  "exit_status w = (case main w of Inl e \<Rightarrow> 1 | Inr status \<Rightarrow> status)"

subsection \<open>Notions used to state the properties\<close>

text \<open>
  The four tests that make the loop pass over a link before any bookkeeping: external,
  anchor-only, templated, empty once the anchor is stripped.
\<close>

definition passed_over :: "string \<Rightarrow> bool" where
  "passed_over link =
     (is_external_link link \<or> is_anchor_only link \<or> has_liquid_template link \<or>
      hd (str_split CHR ''#'' link) = [])"

text \<open>The two remaining classes of a link of \<open>md_file\<close>.\<close>

definition wiki_link :: "path \<Rightarrow> string \<Rightarrow> bool" where
  "wiki_link md_file link =
     (\<not> passed_over link \<and> is_wiki_style_link (hd (str_split CHR ''#'' link)) md_file)"

definition regular_link :: "path \<Rightarrow> string \<Rightarrow> bool" where
  "regular_link md_file link =
     (\<not> passed_over link \<and> \<not> is_wiki_style_link (hd (str_split CHR ''#'' link)) md_file)"

text \<open>The files a trace opened and the paths it probed, in order.\<close>

fun opened :: "io_event list \<Rightarrow> path list" where
  "opened [] = []"
| "opened (Open p # evs) = p # opened evs"
| "opened (ev # evs) = opened evs"

fun probed :: "io_event list \<Rightarrow> path list" where
  "probed [] = []"
| "probed (Exists p # evs) = p # probed evs"
| "probed (ev # evs) = probed evs"

text \<open>A file whose reading raises the \<^verbatim>\<open>OSError\<close> that the scan catches.\<close>

definition unreadable :: "world \<Rightarrow> path \<Rightarrow> bool" where
  "unreadable w md_file =
     (case fs_read w md_file of Inl (OSError msg) \<Rightarrow> True | Inl (ValueError msg) \<Rightarrow> False
      | Inr content \<Rightarrow> False)"

text \<open>
  When a record \<open>e\<close> is the one the loop body appends for a link of \<open>md_file\<close> that it
  has not passed over: the three \<^verbatim>\<open>errors.append\<close> of \<^verbatim>\<open>check_links\<close>.
\<close>

definition reported :: "world \<Rightarrow> path \<Rightarrow> string \<Rightarrow> ErrorRecord \<Rightarrow> bool" where
  "reported w md_file link e =
     (let clean_link = hd (str_split CHR ''#'' link) in
      if is_wiki_style_link clean_link md_file then
        \<not> fst (check_wiki_style_link w clean_link md_file []) \<and>
        e = \<lparr>e_file = str md_file, e_link = link,
             e_expected = str (joinpath (parent md_file) (clean_link @ ''.md'')),
             e_type = ''wiki-style''\<rparr>
      else
        (case resolve_target_path w clean_link md_file of
           Inl err \<Rightarrow> False
         | Inr None \<Rightarrow>
             e = \<lparr>e_file = str md_file, e_link = link,
                  e_expected = ''UNSAFE PATH (outside repository)'', e_type = ''security''\<rparr>
         | Inr (Some target) \<Rightarrow>
             \<not> fs_exists w target \<and>
             e = \<lparr>e_file = str md_file, e_link = link,
                  e_expected = str target, e_type = ''regular''\<rparr>))"

text \<open>Where a record of the result comes from.\<close>

definition origin :: "world \<Rightarrow> path list \<Rightarrow> ErrorRecord \<Rightarrow> bool" where
  "origin w files e =
     (\<exists>f\<in>set files. \<exists>content t. \<not> skipped f \<and> fs_read w f = Inr content \<and>
        (t, e_link e) \<in> set (find_markdown_links content) \<and> \<not> passed_over (e_link e) \<and>
        reported w f (e_link e) e)"

text \<open>The key of a record, as the scan computed it.\<close>

definition record_key :: "ErrorRecord \<Rightarrow> string" where
  "record_key e = e_file e @ '':'' @ e_link e"

text \<open>What parsing a string yields: a path with a normal root and proper parts.\<close>

definition wf_path :: "path \<Rightarrow> bool" where
  "wf_path p = (root p \<in> {[], ''/'', ''//''} \<and>
     (\<forall>x\<in>set (parts p). x \<noteq> [] \<and> x \<noteq> ''.'' \<and> CHR ''/'' \<notin> set x))"

text \<open>States that agree on the two accumulators: the trace is written, never read.\<close>

definition same_core :: "scan_state \<Rightarrow> scan_state \<Rightarrow> bool" where
  "same_core a b = (errors a = errors b \<and> checked a = checked b)"

text \<open>
  Every key of \<^verbatim>\<open>checked\<close> is the key of a link of a discovered file whose record, if the
  loop body has one for it, is in the list.
\<close>

definition accounted :: "world \<Rightarrow> path list \<Rightarrow> scan_state \<Rightarrow> bool" where
  "accounted w files s =
     (\<forall>k\<in>checked s. \<exists>f\<in>set files. \<exists>l. k = check_key f l \<and>
        (\<forall>e. reported w f l e \<longrightarrow> e \<in> set (errors s)))"

subsection \<open>Example worlds\<close>

text \<open>
  A file system without symbolic links: resolving a path makes it absolute against
  the working directory and folds the \<^verbatim>\<open>..\<close> components away.
\<close>

fun collapse :: "string list \<Rightarrow> string list \<Rightarrow> string list" where
  "collapse acc [] = rev acc"
| "collapse acc (x # xs) = (if x = ''..'' then collapse (tl acc) xs else collapse (x # acc) xs)"

definition lexical_resolve :: "path \<Rightarrow> path \<Rightarrow> error + path" where
  "lexical_resolve cwd p =
     (if root p = [] then Inr \<lparr>root = root cwd, parts = collapse [] (parts cwd @ parts p)\<rparr>
      else Inr \<lparr>root = root p, parts = collapse [] (parts p)\<rparr>)"

text \<open>
  A repository at \<^verbatim>\<open>/r\<close> with the tool at \<^verbatim>\<open>/r/s/v.py\<close>, run from \<^verbatim>\<open>/r\<close>. Only
  \<^verbatim>\<open>/r/h.md\<close> and \<^verbatim>\<open>/r/docs/wiki/P.md\<close> exist as targets; \<^verbatim>\<open>l.md\<close> cannot be read.
\<close>

definition demo_world :: world where
  "demo_world =
     \<lparr>script_path = Path ''/r/s/v.py'',
      fs_resolve = lexical_resolve (Path ''/r''),
      fs_exists = (\<lambda>p. case lexical_resolve (Path ''/r'') p of
                          Inl e \<Rightarrow> False
                        | Inr q \<Rightarrow> str q \<in> set [''/r/h.md'', ''/r/docs/wiki/P.md'']),
      fs_rglob = (\<lambda>r. if r = Path ''.'' then [''g.md'', ''docs/wiki/H.md'', ''.github/x.md'', ''l.md'']
                      else []),
      fs_read = (\<lambda>p.
         if str p = ''g.md'' then Inr ''[a](http://x) [b](n.md) [c](h.md) [b](n.md) [d](../../p)''
         else if str p = ''docs/wiki/H.md'' then Inr ''[O](P) [M](N)''
         else if str p = ''.github/x.md'' then Inr ''[z](zz)''
         else Inl (OSError ''denied'')),
      fs_print = (\<lambda>s. None)\<rparr>"

text \<open>What the scan of \<open>demo_world\<close> from \<^verbatim>\<open>'.'\<close> ends with.\<close>

definition demo_errors :: "ErrorRecord list" where
  "demo_errors =
     [\<lparr>e_file = ''g.md'', e_link = ''n.md'', e_expected = ''/r/n.md'', e_type = ''regular''\<rparr>,
      \<lparr>e_file = ''g.md'', e_link = ''../../p'',
        e_expected = ''UNSAFE PATH (outside repository)'', e_type = ''security''\<rparr>,
      \<lparr>e_file = ''docs/wiki/H.md'', e_link = ''N'', e_expected = ''docs/wiki/N.md'',
        e_type = ''wiki-style''\<rparr>]"

definition demo_state :: scan_state where
  "demo_state =
     \<lparr>errors = demo_errors,
      checked = {''docs/wiki/H.md:N'', ''docs/wiki/H.md:P'', ''g.md:../../p'', ''g.md:h.md'',
                 ''g.md:n.md''},
      trace =
        [Open (Path ''g.md''), Exists (Path ''/r/n.md''), Exists (Path ''/r/h.md''),
         Open (Path ''docs/wiki/H.md''), Exists (Path ''docs/wiki/P.md''),
         Exists (Path ''docs/wiki/N.md''), Open (Path ''l.md''),
         Stderr ''Warning: Could not read l.md: denied'']\<rparr>"

text \<open>
  The same repository, holding \<^verbatim>\<open>/r/g.md\<close> with a broken link, and the tool run from
  the directory \<^verbatim>\<open>/t\<close>, which has no markdown file.
\<close>

definition away_world :: world where
  "away_world =
     \<lparr>script_path = Path ''/r/s/v.py'',
      fs_resolve = lexical_resolve (Path ''/t''),
      fs_exists = (\<lambda>p. False),
      fs_rglob = (\<lambda>r. if r = Path ''/r'' then [''/r/g.md''] else []),
      fs_read = (\<lambda>p. Inr ''[b](n.md)''),
      fs_print = (\<lambda>s. None)\<rparr>"

text \<open>
  The tool of the repository \<^verbatim>\<open>/r\<close> run from \<^verbatim>\<open>/t\<close>, where \<^verbatim>\<open>k.md\<close> links to its
  neighbour \<^verbatim>\<open>h.md\<close>, which exists.
\<close>

definition outside_world :: world where
  "outside_world =
     \<lparr>script_path = Path ''/r/s/v.py'',
      fs_resolve = lexical_resolve (Path ''/t''),
      fs_exists = (\<lambda>p. True),
      fs_rglob = (\<lambda>r. if r = Path ''.'' then [''k.md''] else []),
      fs_read = (\<lambda>p. Inr ''[h](h.md)''),
      fs_print = (\<lambda>s. None)\<rparr>"

text \<open>
  A repository at \<^verbatim>\<open>/r\<close>, the tool run from it, whose one file \<^verbatim>\<open>g.md\<close> has a link with a
  null character in it: resolving a path with such a part raises \<^verbatim>\<open>ValueError\<close>.
\<close>

definition nul_world :: world where
  "nul_world =
     \<lparr>script_path = Path ''/r/s/v.py'',
      fs_resolve = (\<lambda>p. if list_ex (\<lambda>x. CHR 0x00 \<in> set x) (parts p)
                         then Inl (ValueError ''embedded null byte'')
                         else lexical_resolve (Path ''/r'') p),
      fs_exists = (\<lambda>p. False),
      fs_rglob = (\<lambda>r. if r = Path ''.'' then [''g.md''] else []),
      fs_read = (\<lambda>p. Inr (''[x](a'' @ [CHR 0x00] @ ''b)'')),
      fs_print = (\<lambda>s. None)\<rparr>"

text \<open>
  A repository at \<^verbatim>\<open>/r\<close> without any markdown file, the tool run from it with a
  standard output that encodes ASCII only.
\<close>

definition ascii_world :: world where
  "ascii_world =
     \<lparr>script_path = Path ''/r/s/v.py'',
      fs_resolve = lexical_resolve (Path ''/r''),
      fs_exists = (\<lambda>p. False),
      fs_rglob = (\<lambda>r. []),
      fs_read = (\<lambda>p. Inl (OSError ''no such file'')),
      fs_print = (\<lambda>s. if list_all (\<lambda>c. (of_char c :: nat) < 128) s then None
                       else Some (ValueError ''codec cannot encode character''))\<rparr>"

text \<open>
  Two files, \<^verbatim>\<open>a.md\<close> and \<^verbatim>\<open>a.md:b.md\<close>, enumerated in the order \<open>files\<close>, each with
  one link that leaves the repository; both links have the key
  \<^verbatim>\<open>a.md:b.md:../../../y\<close>.
\<close>

definition clash_world :: "string list \<Rightarrow> world" where
  "clash_world files =
     \<lparr>script_path = Path ''/r/s/v.py'',
      fs_resolve = lexical_resolve (Path ''/r''),
      fs_exists = (\<lambda>p. False),
      fs_rglob = (\<lambda>r. files),
      fs_read = (\<lambda>p. if str p = ''a.md'' then Inr ''[x](b.md:../../../y)''
                      else Inr ''[x](../../../y)''),
      fs_print = (\<lambda>s. None)\<rparr>"

text \<open>
  Two wiki pages, \<^verbatim>\<open>docs/wiki/a.md\<close> and \<^verbatim>\<open>docs/wiki/a.md:b.md\<close>, each with one bare
  page name whose page is missing; both links have the key \<^verbatim>\<open>docs/wiki/a.md:b.md:P\<close>.
\<close>

definition wiki_clash_world :: "string list \<Rightarrow> world" where
  "wiki_clash_world files =
     \<lparr>script_path = Path ''/r/s/v.py'',
      fs_resolve = lexical_resolve (Path ''/r''),
      fs_exists = (\<lambda>p. False),
      fs_rglob = (\<lambda>r. files),
      fs_read = (\<lambda>p. if str p = ''docs/wiki/a.md'' then Inr ''[x](b.md:P)''
                      else Inr ''[x](P)''),
      fs_print = (\<lambda>s. None)\<rparr>"

section \<open>Lemmas\<close>

subsection \<open>Strings and link extraction\<close>

lemma hd_str_split: "hd (str_split c s) = takeWhile (\<lambda>x. x \<noteq> c) s"
  by (induction s) auto

lemma str_split_nonempty: "str_split c s \<noteq> []"
  by (induction s) auto

lemma match_link_url:
  assumes "match_link cs = Some (t, url, rest)"
  shows "url \<noteq> [] \<and> CHR '')'' \<notin> set url \<and> CHR '']'' \<notin> set t"
proof -
  from assms obtain r3 where u: "url = takeWhile (\<lambda>c. c \<noteq> CHR '')'') r3" and n: "url \<noteq> []"
    and t: "t = takeWhile (\<lambda>c. c \<noteq> CHR '']'') cs"
    by (auto simp: match_link_def Let_def split: list.splits if_splits)
  have "CHR '')'' \<notin> set url" unfolding u by (auto dest: set_takeWhileD)
  moreover have "CHR '']'' \<notin> set t" unfolding t by (auto dest: set_takeWhileD)
  ultimately show ?thesis using n by simp
qed

lemma find_markdown_links_url:
  "(t, url) \<in> set (find_markdown_links s) \<Longrightarrow> url \<noteq> [] \<and> CHR '')'' \<notin> set url \<and> CHR '']'' \<notin> set t"
proof (induction s rule: find_markdown_links.induct)
  case 1
  then show ?case by simp
next
  case (2 c cs)
  show ?case
  proof (cases "c = CHR ''[''")
    case True
    show ?thesis
    proof (cases "match_link cs")
      case None
      with True 2 show ?thesis by simp
    next
      case (Some m)
      obtain t' u' r' where m: "m = (t', u', r')" by (cases m) auto
      from 2(4) True Some m have "(t, url) = (t', u') \<or> (t, url) \<in> set (find_markdown_links r')"
        by simp
      then show ?thesis
      proof
        assume "(t, url) = (t', u')"
        with Some m match_link_url [of cs t' u' r'] show ?thesis by simp
      next
        assume "(t, url) \<in> set (find_markdown_links r')"
        with 2(2) [OF True Some, of t' "(u', r')" u' r'] m show ?thesis by simp
      qed
    qed
  next
    case False
    with 2 show ?thesis by simp
  qed
qed

subsection \<open>The loop body\<close>

lemma check_link_passed_over: "passed_over link \<Longrightarrow> check_link w f link st = Inr st"
  by (auto simp: passed_over_def check_link_def Let_def)

lemma check_link_checked: "check_key f link \<in> checked st \<Longrightarrow> check_link w f link st = Inr st"
  by (auto simp: check_link_def Let_def)

lemma check_link_mono:
  assumes "check_link w f link st = Inr st'"
  shows "\<exists>es. errors st' = errors st @ es" and "checked st \<subseteq> checked st'"
    and "trace st' = trace st \<or> (\<exists>p. trace st' = trace st @ [Exists p] \<and> is_path_safe w p)"
  using assms
  by (auto simp: check_link_def Let_def check_wiki_style_link_def resolve_target_path_def
      split: if_splits sum.splits option.splits prod.splits)

lemma check_link_new:
  assumes "check_link w f link st = Inr st'" and "\<not> passed_over link"
  shows "check_key f link \<in> checked st'"
  using assms
  by (auto simp: check_link_def passed_over_def Let_def check_wiki_style_link_def
      split: if_splits sum.splits option.splits prod.splits)

lemma check_link_fresh:
  assumes "\<not> passed_over link" and "check_key f link \<notin> checked st"
  shows "check_link w f link st =
     (if is_wiki_style_link (hd (str_split CHR ''#'' link)) f then
        (case check_wiki_style_link w (hd (str_split CHR ''#'' link)) f [] of
           (ok, tr) \<Rightarrow>
             Inr \<lparr>errors = errors st @
                    (if ok then [] else
                     [\<lparr>e_file = str f, e_link = link,
                       e_expected = str (joinpath (parent f) (hd (str_split CHR ''#'' link) @ ''.md'')),
                       e_type = ''wiki-style''\<rparr>]),
                  checked = insert (check_key f link) (checked st),
                  trace = trace st @ tr\<rparr>)
      else
        (case resolve_target_path w (hd (str_split CHR ''#'' link)) f of
           Inl err \<Rightarrow> Inl err
         | Inr None \<Rightarrow>
             Inr \<lparr>errors = errors st @
                    [\<lparr>e_file = str f, e_link = link,
                      e_expected = ''UNSAFE PATH (outside repository)'', e_type = ''security''\<rparr>],
                  checked = insert (check_key f link) (checked st),
                  trace = trace st\<rparr>
         | Inr (Some target) \<Rightarrow>
             Inr \<lparr>errors = errors st @
                    (if fs_exists w target then [] else
                     [\<lparr>e_file = str f, e_link = link,
                       e_expected = str target, e_type = ''regular''\<rparr>]),
                  checked = insert (check_key f link) (checked st),
                  trace = trace st @ [Exists target]\<rparr>))"
  using assms
  by (auto simp: check_link_def passed_over_def Let_def check_wiki_style_link_def
      split: if_splits sum.splits option.splits prod.splits)

lemma check_link_reported:
  assumes "check_link w f link st = Inr st'" and "e \<in> set (errors st')" and "e \<notin> set (errors st)"
  shows "errors st' = errors st @ [e] \<and> \<not> passed_over link \<and> check_key f link \<notin> checked st \<and>
         reported w f link e"
proof -
  from assms have np: "\<not> passed_over link" using check_link_passed_over [of link w f st] by auto
  from assms have nc: "check_key f link \<notin> checked st" using check_link_checked [of f link st w] by auto
  from assms show ?thesis
    unfolding check_link_fresh [OF np nc] reported_def Let_def using np nc
    by (auto simp: check_wiki_style_link_def split: if_splits sum.splits option.splits prod.splits)
qed


subsection \<open>Invariants of the two loops\<close>

lemma opened_append: "opened (xs @ ys) = opened xs @ opened ys"
  by (induction xs rule: opened.induct) auto

lemma probed_append: "probed (xs @ ys) = probed xs @ probed ys"
  by (induction xs rule: probed.induct) auto

text \<open>An invariant of the loop body is an invariant of the inner loop.\<close>

lemma check_file_links_invariant:
  assumes "check_file_links w f links st = Inr st'" and "I st"
    and "\<And>t l s s'. (t, l) \<in> set links \<Longrightarrow> I s \<Longrightarrow> check_link w f l s = Inr s' \<Longrightarrow> I s'"
  shows "I st'"
  using assms
proof (induction links arbitrary: st)
  case Nil
  then show ?case by simp
next
  case (Cons tl links)
  obtain t l where tl: "tl = (t, l)" by (cases tl) auto
  from Cons.prems(1) tl obtain s1 where s1: "check_link w f l st = Inr s1"
    and r: "check_file_links w f links s1 = Inr st'"
    by (auto split: sum.splits)
  have "I s1" using Cons.prems(3) [of t l st s1] tl Cons.prems(2) s1 by simp
  moreover have "\<And>t l s s'. (t, l) \<in> set links \<Longrightarrow> I s \<Longrightarrow> check_link w f l s = Inr s' \<Longrightarrow> I s'"
    using Cons.prems(3) by (meson list.set_intros(2))
  ultimately show ?case using Cons.IH [OF r] by blast
qed

text \<open>And of the outer loop, when the events of opening and warning keep it.\<close>

lemma check_files_invariant:
  assumes "check_files w files st = Inr st'" and "I st"
    and step: "\<And>f content t l s s'. f \<in> set files \<Longrightarrow> \<not> skipped f \<Longrightarrow>
            fs_read w f = Inr content \<Longrightarrow> (t, l) \<in> set (find_markdown_links content) \<Longrightarrow>
            I s \<Longrightarrow> check_link w f l s = Inr s' \<Longrightarrow> I s'"
    and io: "\<And>s evs. I s \<Longrightarrow> probed evs = [] \<Longrightarrow> I (s\<lparr>trace := trace s @ evs\<rparr>)"
  shows "I st'"
  using assms(1,2,3)
proof (induction files arbitrary: st)
  case Nil
  then show ?case by simp
next
  case (Cons f files)
  have step': "\<And>f' content t l s s'. f' \<in> set files \<Longrightarrow> \<not> skipped f' \<Longrightarrow>
            fs_read w f' = Inr content \<Longrightarrow> (t, l) \<in> set (find_markdown_links content) \<Longrightarrow>
            I s \<Longrightarrow> check_link w f' l s = Inr s' \<Longrightarrow> I s'"
    using Cons.prems(3) by (meson list.set_intros(2))
  show ?case
  proof (cases "skipped f")
    case True
    with Cons.prems(1) have "check_files w files st = Inr st'" by simp
    from Cons.IH [OF this Cons.prems(2) step'] show ?thesis by simp
  next
    case False
    let ?st1 = "st\<lparr>trace := trace st @ [Open f]\<rparr>"
    have i1: "I ?st1" using io [OF Cons.prems(2), of "[Open f]"] by simp
    show ?thesis
    proof (cases "fs_read w f")
      case (Inl err)
      show ?thesis
      proof (cases err)
        case (ValueError msg)
        with Inl False Cons.prems(1) show ?thesis by (simp add: Let_def)
      next
        case (OSError msg)
        let ?st2 = "?st1\<lparr>trace := trace ?st1 @
            [Stderr (''Warning: Could not read '' @ str f @ '': '' @ msg)]\<rparr>"
        have i2: "I ?st2" by (rule io [OF i1]) simp
        from OSError Inl False Cons.prems(1) have "check_files w files ?st2 = Inr st'"
          by (simp add: Let_def)
        from Cons.IH [OF this i2 step'] show ?thesis by simp
      qed
    next
      case (Inr content)
      from Inr False Cons.prems(1) obtain s2 where
        s2: "check_file_links w f (find_markdown_links content) ?st1 = Inr s2"
        and r: "check_files w files s2 = Inr st'"
        by (auto simp: Let_def split: sum.splits)
      have "\<And>t l s s'. (t, l) \<in> set (find_markdown_links content) \<Longrightarrow> I s \<Longrightarrow>
              check_link w f l s = Inr s' \<Longrightarrow> I s'"
        using Cons.prems(3) [of f content] False Inr by simp
      with check_file_links_invariant [of w f "find_markdown_links content" ?st1 s2 I] s2 i1
      have "I s2" by blast
      from Cons.IH [OF r this step'] show ?thesis by simp
    qed
  qed
qed

lemma reported_fields: "reported w f link e \<Longrightarrow> e_file e = str f \<and> e_link e = link"
  by (auto simp: reported_def Let_def split: if_splits sum.splits option.splits)

lemma check_link_step:
  assumes "check_link w f link st = Inr st'"
  shows "errors st' = errors st \<or>
         (\<exists>e. errors st' = errors st @ [e] \<and> \<not> passed_over link \<and>
              check_key f link \<notin> checked st \<and> reported w f link e)"
proof (cases "passed_over link \<or> check_key f link \<in> checked st")
  case True
  with assms check_link_passed_over [of link w f st] check_link_checked [of f link st w]
  show ?thesis by auto
next
  case False
  then have np: "\<not> passed_over link" and nc: "check_key f link \<notin> checked st" by auto
  from assms show ?thesis
    unfolding check_link_fresh [OF np nc] reported_def Let_def using np nc
    by (auto simp: check_wiki_style_link_def split: if_splits sum.splits option.splits prod.splits)
qed

lemma check_files_origin:
  assumes "check_files w files st = Inr st'" and "e \<in> set (errors st')"
  shows "e \<in> set (errors st) \<or> origin w files e"
proof -
  let ?I = "\<lambda>s. \<forall>e\<in>set (errors s). e \<in> set (errors st) \<or> origin w files e"
  have "?I st'"
  proof (rule check_files_invariant [OF assms(1), of ?I])
    show "?I st" by simp
  next
    fix f content t l s s'
    assume f: "f \<in> set files" "\<not> skipped f" "fs_read w f = Inr content"
      "(t, l) \<in> set (find_markdown_links content)" and i: "?I s"
      and c: "check_link w f l s = Inr s'"
    from check_link_step [OF c] show "?I s'"
    proof
      assume "errors s' = errors s"
      with i show ?thesis by simp
    next
      assume "\<exists>e. errors s' = errors s @ [e] \<and> \<not> passed_over l \<and>
              check_key f l \<notin> checked s \<and> reported w f l e"
      then obtain e' where e': "errors s' = errors s @ [e']" "\<not> passed_over l" "reported w f l e'"
        by auto
      from e'(3) have "e_link e' = l" by (simp add: reported_fields)
      with f e' have "origin w files e'" unfolding origin_def by blast
      with i e'(1) show ?thesis by auto
    qed
  next
    fix s :: scan_state and evs
    assume "?I s"
    then show "?I (s\<lparr>trace := trace s @ evs\<rparr>)" by simp
  qed
  with assms(2) show ?thesis by blast
qed

lemma check_files_keys:
  assumes "check_files w files st = Inr st'"
    and "distinct (map record_key (errors st))" and "record_key ` set (errors st) \<subseteq> checked st"
  shows "distinct (map record_key (errors st')) \<and> record_key ` set (errors st') \<subseteq> checked st'"
proof -
  let ?I = "\<lambda>s. distinct (map record_key (errors s)) \<and> record_key ` set (errors s) \<subseteq> checked s"
  show ?thesis
  proof (rule check_files_invariant [OF assms(1), of ?I])
    show "?I st" using assms by simp
  next
    fix f content t l s s'
    assume i: "?I s" and c: "check_link w f l s = Inr s'"
    have m: "checked s \<subseteq> checked s'" by (rule check_link_mono(2) [OF c])
    from check_link_step [OF c] show "?I s'"
    proof
      assume "errors s' = errors s"
      with i m show ?thesis by auto
    next
      assume "\<exists>e. errors s' = errors s @ [e] \<and> \<not> passed_over l \<and>
              check_key f l \<notin> checked s \<and> reported w f l e"
      then obtain e where e: "errors s' = errors s @ [e]" "\<not> passed_over l"
        "check_key f l \<notin> checked s" "reported w f l e" by auto
      have k: "record_key e = check_key f l"
        using reported_fields [OF e(4)] by (simp add: record_key_def check_key_def)
      have "check_key f l \<in> checked s'" by (rule check_link_new [OF c e(2)])
      with i m e(1,3) k show ?thesis by auto
    qed
  next
    fix s :: scan_state and evs
    assume "?I s"
    then show "?I (s\<lparr>trace := trace s @ evs\<rparr>)" by simp
  qed
qed

lemma check_files_probed:
  assumes "check_files w files st = Inr st'" and "\<forall>p\<in>set (probed (trace st)). is_path_safe w p"
  shows "\<forall>p\<in>set (probed (trace st')). is_path_safe w p"
proof (rule check_files_invariant [OF assms(1), of "\<lambda>s. \<forall>p\<in>set (probed (trace s)). is_path_safe w p"])
  show "\<forall>p\<in>set (probed (trace st)). is_path_safe w p" by (rule assms(2))
next
  fix f l s s'
  assume i: "\<forall>p\<in>set (probed (trace s)). is_path_safe w p" and c: "check_link w f l s = Inr s'"
  from check_link_mono(3) [OF c] i show "\<forall>p\<in>set (probed (trace s')). is_path_safe w p"
    by (auto simp: probed_append)
next
  fix s :: scan_state and evs
  assume "\<forall>p\<in>set (probed (trace s)). is_path_safe w p" and "probed evs = []"
  then show "\<forall>p\<in>set (probed (trace (s\<lparr>trace := trace s @ evs\<rparr>))). is_path_safe w p"
    by (simp add: probed_append)
qed

lemma check_file_links_opened:
  assumes "check_file_links w f links st = Inr st'"
  shows "opened (trace st') = opened (trace st)"
proof (rule check_file_links_invariant [OF assms, of "\<lambda>s. opened (trace s) = opened (trace st)"])
  show "opened (trace st) = opened (trace st)" by simp
next
  fix l s s'
  assume i: "opened (trace s) = opened (trace st)" and c: "check_link w f l s = Inr s'"
  from check_link_mono(3) [OF c] i show "opened (trace s') = opened (trace st)"
    by (auto simp: opened_append)
qed

lemma check_files_opened:
  "check_files w files st = Inr st' \<Longrightarrow>
   opened (trace st') = opened (trace st) @ filter (\<lambda>f. \<not> skipped f) files"
proof (induction files arbitrary: st)
  case Nil
  then show ?case by simp
next
  case (Cons f files)
  show ?case
  proof (cases "skipped f")
    case True
    with Cons show ?thesis by simp
  next
    case False
    show ?thesis
    proof (cases "fs_read w f")
      case (Inl err)
      show ?thesis
      proof (cases err)
        case (ValueError msg)
        with Inl False Cons.prems show ?thesis by (simp add: Let_def)
      next
        case (OSError msg)
        with Inl False Cons.prems Cons.IH show ?thesis
          by (fastforce simp: Let_def opened_append)
      qed
    next
      case (Inr content)
      from Inr False Cons.prems obtain s2 where
        s2: "check_file_links w f (find_markdown_links content) (st\<lparr>trace := trace st @ [Open f]\<rparr>) = Inr s2"
        and r: "check_files w files s2 = Inr st'"
        by (auto simp: Let_def split: sum.splits)
      from check_file_links_opened [OF s2] Cons.IH [OF r] False show ?thesis
        by (simp add: opened_append)
    qed
  qed
qed

lemma check_files_skip: "check_files w (filter (\<lambda>f. \<not> skipped f) files) st = check_files w files st"
  by (induction files arbitrary: st) (auto simp: Let_def split: sum.splits error.splits)

subsection \<open>Paths and their strings\<close>

lemma str_split_no_sep: "x \<in> set (str_split c s) \<Longrightarrow> c \<notin> set x"
proof (induction s arbitrary: x)
  case Nil
  then show ?case by simp
next
  case (Cons a s)
  have ne: "str_split c s \<noteq> []" by (rule str_split_nonempty)
  then obtain y ys where y: "str_split c s = y # ys" by (cases "str_split c s") auto
  show ?case
  proof (cases "a = c")
    case True
    with Cons show ?thesis by auto
  next
    case False
    with Cons.prems y have "x = a # y \<or> x \<in> set ys" by simp
    then show ?thesis using Cons.IH [of y] Cons.IH [of x] y False by auto
  qed
qed

lemma str_split_single: "c \<notin> set x \<Longrightarrow> str_split c x = [x]"
  by (induction x) auto

lemma str_split_append: "c \<notin> set x \<Longrightarrow> str_split c (x @ c # rest) = x # str_split c rest"
  by (induction x) auto

lemma str_split_join:
  "ps \<noteq> [] \<Longrightarrow> \<forall>x\<in>set ps. c \<notin> set x \<Longrightarrow> str_split c (str_join [c] ps) = ps"
proof (induction "[c]" ps rule: str_join.induct)
  case 1
  then show ?case by simp
next
  case (2 x)
  then show ?case by (simp add: str_split_single)
next
  case (3 x y ys)
  then show ?case by (simp add: str_split_append)
qed

lemma wf_Path: "wf_path (Path s)"
  by (auto simp: wf_path_def Path_def path_root_def dest: str_split_no_sep)

lemma str_join_hd: "ps \<noteq> [] \<Longrightarrow> hd ps \<noteq> [] \<Longrightarrow> str_join sep ps \<noteq> [] \<and> hd (str_join sep ps) = hd (hd ps)"
  by (induction sep ps rule: str_join.induct) auto

lemma not_slash_start:
  assumes "\<forall>x\<in>set ps. x \<noteq> [] \<and> CHR ''/'' \<notin> set x"
  shows "\<not> prefix ''/'' (str_join ''/'' ps)"
proof (cases ps)
  case Nil
  then show ?thesis by simp
next
  case (Cons x xs)
  with assms have x: "x \<noteq> []" "CHR ''/'' \<notin> set x" by auto
  from str_join_hd [of ps "''/''"] Cons x
  have j: "str_join ''/'' ps \<noteq> []" "hd (str_join ''/'' ps) = hd x" by auto
  from x have "hd x \<noteq> CHR ''/''" by (cases x) auto
  with j show ?thesis by (cases "str_join ''/'' ps") auto
qed

lemma Path_str:
  assumes "wf_path p"
  shows "Path (str p) = p"
proof -
  let ?ps = "parts p"
  let ?j = "str_join ''/'' ?ps"
  from assms have ps: "\<forall>x\<in>set ?ps. x \<noteq> [] \<and> x \<noteq> ''.'' \<and> CHR ''/'' \<notin> set x"
    and r: "root p = [] \<or> root p = ''/'' \<or> root p = ''//''"
    by (auto simp: wf_path_def)
  have ns: "\<not> prefix ''/'' ?j" using not_slash_start [of ?ps] ps by blast
  have f: "filter (\<lambda>x. x \<noteq> [] \<and> x \<noteq> ''.'') ?ps = ?ps" using ps by (simp add: filter_id_conv)
  have sj: "filter (\<lambda>x. x \<noteq> [] \<and> x \<noteq> ''.'') (str_split CHR ''/'' ?j) = ?ps"
  proof (cases "?ps = []")
    case True
    then show ?thesis by simp
  next
    case False
    with str_split_join [of ?ps "CHR ''/''"] ps f show ?thesis by simp
  qed
  show ?thesis
  proof (cases "root p = [] \<and> ?ps = []")
    case True
    then have "Path (str p) = \<lparr>root = [], parts = []\<rparr>"
      by (simp add: str_def Path_def path_root_def startswith_def)
    with True show ?thesis by simp
  next
    case False
    then have s: "str p = root p @ ?j" by (simp add: str_def)
    from r have "path_root (str p) = root p \<and>
        filter (\<lambda>x. x \<noteq> [] \<and> x \<noteq> ''.'') (str_split CHR ''/'' (str p)) = ?ps"
    proof (elim disjE)
      assume "root p = []"
      with s ns sj show ?thesis
        by (cases ?j) (auto simp: path_root_def startswith_def)
    next
      assume "root p = ''/''"
      with s ns sj show ?thesis
        by (cases ?j) (auto simp: path_root_def startswith_def)
    next
      assume "root p = ''//''"
      with s ns sj show ?thesis
        by (cases ?j) (auto simp: path_root_def startswith_def)
    qed
    then show ?thesis by (simp add: Path_def)
  qed
qed

lemma str_Path_inj: "str (Path a) = str (Path b) \<Longrightarrow> Path a = Path b"
proof -
  assume "str (Path a) = str (Path b)"
  then have "Path (str (Path a)) = Path (str (Path b))" by (rule arg_cong)
  then show ?thesis by (simp only: Path_str [OF wf_Path])
qed

lemma part_in_str_join: "x \<in> set ps \<Longrightarrow> sublist x (str_join sep ps)"
proof (induction sep ps rule: str_join.induct)
  case (1 sep)
  then show ?case by simp
next
  case (2 sep y)
  then show ?case by simp
next
  case (3 sep y z zs)
  show ?case
  proof (cases "x = y")
    case True
    then show ?thesis by (simp add: sublist_append)
  next
    case False
    with 3 have "sublist x (str_join sep (z # zs))" by simp
    then show ?thesis by (simp add: sublist_append)
  qed
qed

lemma part_in_str: "x \<in> set (parts p) \<Longrightarrow> x \<noteq> ''.'' \<Longrightarrow> sublist x (str p)"
  using part_in_str_join [of x "parts p" "''/''"]
  by (auto simp: str_def sublist_append)

lemma github_skipped: "''.github'' \<in> set (parts p) \<Longrightarrow> str_in ''.git'' (str p)"
proof -
  assume "''.github'' \<in> set (parts p)"
  then have "sublist ''.github'' (str p)" by (rule part_in_str) simp
  moreover have "sublist ''.git'' ''.github''" by (simp add: sublist_code)
  ultimately show ?thesis unfolding str_in_def by (rule sublist_order.order.trans [rotated])
qed

subsection \<open>The result of a scan\<close>

lemma scan_errors:
  assumes "check_links w root_dir = Inr errs"
  obtains st where "scan w root_dir = Inr st" and "errors st = errs"
  using assms by (cases "scan w root_dir") (auto simp: check_links_def)

lemma scan_origin:
  assumes "scan w root_dir = Inr st" and "e \<in> set (errors st)"
  shows "origin w (rglob_md w (Path root_dir)) e"
  using check_files_origin [OF assms(1) [unfolded scan_def] assms(2)] by simp

lemma lstrip_not_rooted: "path_root (lstrip CHR ''/'' s) = []"
proof -
  have "\<not> prefix ''/'' (dropWhile (\<lambda>x. x = CHR ''/'') s)"
    by (induction s) auto
  moreover have "prefix ''//'' x \<Longrightarrow> prefix ''/'' x" for x :: string
    by (cases x) auto
  ultimately show ?thesis by (auto simp: path_root_def startswith_def lstrip_def)
qed

lemma check_link_core:
  assumes "same_core a b"
  shows "rel_sum (=) same_core (check_link w f l a) (check_link w f l b)"
proof (cases "passed_over l \<or> check_key f l \<in> checked a")
  case True
  with assms show ?thesis
    using check_link_passed_over [of l w f] check_link_checked [of f l _ w]
    by (auto simp: same_core_def)
next
  case False
  with assms have n: "\<not> passed_over l" "check_key f l \<notin> checked a" "check_key f l \<notin> checked b"
    by (auto simp: same_core_def)
  from assms show ?thesis
    unfolding check_link_fresh [OF n(1,2)] check_link_fresh [OF n(1,3)]
    by (auto simp: same_core_def split: prod.splits sum.splits option.splits)
qed

lemma check_file_links_core:
  "same_core a b \<Longrightarrow>
   rel_sum (=) same_core (check_file_links w f links a) (check_file_links w f links b)"
proof (induction links arbitrary: a b)
  case Nil
  then show ?case by simp
next
  case (Cons tl links)
  obtain t l where tl: "tl = (t, l)" by (cases tl) auto
  from check_link_core [OF Cons.prems, of w f l]
  have r: "rel_sum (=) same_core (check_link w f l a) (check_link w f l b)" .
  show ?case
  proof (cases "check_link w f l a")
    case (Inl e)
    with r tl show ?thesis by (cases "check_link w f l b") simp_all
  next
    case (Inr a')
    with r obtain b' where b': "check_link w f l b = Inr b'" "same_core a' b'"
      by (cases "check_link w f l b") simp_all
    with Inr tl Cons.IH [of a' b'] show ?thesis by simp
  qed
qed

lemma check_files_core:
  "same_core a b \<Longrightarrow> rel_sum (=) same_core (check_files w files a) (check_files w files b)"
proof (induction files arbitrary: a b)
  case Nil
  then show ?case by simp
next
  case (Cons f files)
  show ?case
  proof (cases "skipped f")
    case True
    with Cons show ?thesis by simp
  next
    case False
    have c1: "same_core (a\<lparr>trace := x\<rparr>) (b\<lparr>trace := y\<rparr>)" for x y
      using Cons.prems by (simp add: same_core_def)
    show ?thesis
    proof (cases "fs_read w f")
      case (Inl err)
      with False Cons.IH [OF c1] show ?thesis by (cases err) (simp_all add: Let_def)
    next
      case (Inr content)
      let ?A = "check_file_links w f (find_markdown_links content) (a\<lparr>trace := trace a @ [Open f]\<rparr>)"
      let ?B = "check_file_links w f (find_markdown_links content) (b\<lparr>trace := trace b @ [Open f]\<rparr>)"
      have r: "rel_sum (=) same_core ?A ?B" by (rule check_file_links_core [OF c1])
      show ?thesis
      proof (cases ?A)
        case (Inl e)
        with r False Inr show ?thesis by (cases ?B) (simp_all add: Let_def)
      next
        case a': (Inr a')
        with r obtain b' where b': "?B = Inr b'" "same_core a' b'"
          by (cases ?B) simp_all
        with a' False Inr Cons.IH [of a' b'] show ?thesis by (simp add: Let_def)
      qed
    qed
  qed
qed

lemma rel_sum_errors:
  "rel_sum (=) same_core x y \<Longrightarrow> map_sum id errors x = map_sum id errors y"
  by (cases x; cases y) (simp_all add: same_core_def)

text \<open>Unreadable files can be left out of the enumeration.\<close>

lemma check_files_unreadable:
  "rel_sum (=) same_core
     (check_files w (filter (\<lambda>f. \<not> unreadable w f) files) st) (check_files w files st)"
proof (induction files arbitrary: st)
  case Nil
  then show ?case by (simp add: same_core_def)
next
  case (Cons f files)
  have refl: "rel_sum (=) same_core x x" for x
    by (cases x) (simp_all add: same_core_def)
  show ?case
  proof (cases "unreadable w f")
    case False
    with Cons.IH show ?thesis
      by (auto simp: Let_def refl split: sum.splits error.splits)
  next
    case True
    then obtain msg where m: "fs_read w f = Inl (OSError msg)"
      by (auto simp: unreadable_def split: sum.splits error.splits)
    show ?thesis
    proof (cases "skipped f")
      case s: True
      with True Cons.IH show ?thesis by simp
    next
      case s: False
      let ?st2 = "st\<lparr>trace := trace st @ [Open f,
            Stderr (''Warning: Could not read '' @ str f @ '': '' @ msg)]\<rparr>"
      have "same_core st ?st2" by (simp add: same_core_def)
      from check_files_core [OF this, of w files]
      have "rel_sum (=) same_core (check_files w files st) (check_files w files ?st2)" .
      with Cons.IH [of st]
      have "rel_sum (=) same_core (check_files w (filter (\<lambda>f. \<not> unreadable w f) files) st)
              (check_files w files ?st2)"
        by (cases "check_files w (filter (\<lambda>f. \<not> unreadable w f) files) st";
            cases "check_files w files st"; cases "check_files w files ?st2")
           (simp_all add: same_core_def)
      with True s m show ?thesis by (simp add: Let_def)
    qed
  qed
qed

text \<open>The scan of a list of files asks nothing of the enumeration.\<close>

lemma REPO_ROOT_rglob: "REPO_ROOT (w\<lparr>fs_rglob := g\<rparr>) = REPO_ROOT w"
  by (simp add: REPO_ROOT_def)

lemma is_path_safe_rglob: "is_path_safe (w\<lparr>fs_rglob := g\<rparr>) p = is_path_safe w p"
  by (simp add: is_path_safe_def REPO_ROOT_rglob cong: sum.case_cong)

lemma resolve_target_path_rglob:
  "resolve_target_path (w\<lparr>fs_rglob := g\<rparr>) l f = resolve_target_path w l f"
  by (simp add: resolve_target_path_def REPO_ROOT_rglob is_path_safe_rglob Let_def
      cong: sum.case_cong)

lemma check_wiki_style_link_rglob:
  "check_wiki_style_link (w\<lparr>fs_rglob := g\<rparr>) l f tr = check_wiki_style_link w l f tr"
  by (simp add: check_wiki_style_link_def is_path_safe_rglob Let_def)

lemma check_link_rglob: "check_link (w\<lparr>fs_rglob := g\<rparr>) f l st = check_link w f l st"
  by (simp add: check_link_def check_wiki_style_link_rglob resolve_target_path_rglob Let_def
      cong: sum.case_cong option.case_cong prod.case_cong if_cong)

lemma check_file_links_rglob:
  "check_file_links (w\<lparr>fs_rglob := g\<rparr>) f links st = check_file_links w f links st"
  by (induction links arbitrary: st) (auto simp: check_link_rglob split: sum.splits)

lemma check_files_rglob: "check_files (w\<lparr>fs_rglob := g\<rparr>) files st = check_files w files st"
  by (induction files arbitrary: st)
     (auto simp: check_file_links_rglob Let_def split: sum.splits error.splits)

lemma check_links_readable:
  "check_links (w\<lparr>fs_rglob := \<lambda>r. filter (\<lambda>s. \<not> unreadable w (Path s)) (fs_rglob w r)\<rparr>) root_dir
   = check_links w root_dir"
proof -
  have "map Path (filter (\<lambda>s. \<not> unreadable w (Path s)) xs) =
        filter (\<lambda>f. \<not> unreadable w f) (map Path xs)" for xs
    by (induction xs) auto
  then show ?thesis
    unfolding check_links_def scan_def rglob_md_def
    using rel_sum_errors [OF check_files_unreadable]
    by (simp add: check_files_rglob)
qed

text \<open>A \<^verbatim>\<open>print\<close> asks nothing of the enumeration either.\<close>

lemma print_lines_rglob: "print_lines (w\<lparr>fs_rglob := g\<rparr>) ss = print_lines w ss"
  by (induction ss) (auto split: option.splits)

lemma main_rglob:
  assumes "check_links (w\<lparr>fs_rglob := g\<rparr>) ''.'' = check_links w ''.''"
  shows "main (w\<lparr>fs_rglob := g\<rparr>) = main w"
  unfolding main_def print_lines_rglob assms by (rule refl)

lemma print_lines_quiet: "\<forall>s. fs_print w s = None \<Longrightarrow> print_lines w ss = None"
  by (induction ss) auto

text \<open>
  The scan enumerates \<^verbatim>\<open>'.'\<close> and nothing else: the files it opens are the files under
  \<^verbatim>\<open>'.'\<close> that are not excluded, and \<^verbatim>\<open>main\<close> depends on the enumeration under \<^verbatim>\<open>'.'\<close> only.
\<close>

lemma scan_enumerates_working_directory:
  "(scan w ''.'' = Inr st \<longrightarrow>
      opened (trace st) = filter (\<lambda>f. \<not> skipped f) (map Path (fs_rglob w (Path ''.'')))) \<and>
   (g (Path ''.'') = fs_rglob w (Path ''.'') \<longrightarrow> main (w\<lparr>fs_rglob := g\<rparr>) = main w)"
proof -
  have b: "opened (trace st) = filter (\<lambda>f. \<not> skipped f) (map Path (fs_rglob w (Path ''.'')))"
    if "scan w ''.'' = Inr st"
    using check_files_opened [OF that [unfolded scan_def]] by (simp add: rglob_md_def)
  have c: "main (w\<lparr>fs_rglob := g\<rparr>) = main w" if "g (Path ''.'') = fs_rglob w (Path ''.'')"
    using that
    by (intro main_rglob) (simp add: check_links_def scan_def rglob_md_def check_files_rglob)
  from b c show ?thesis by blast
qed

text \<open>
  When \<^verbatim>\<open>main\<close> returns, it returns 0 for the empty list and 1 for any other; when no
  \<^verbatim>\<open>print\<close> raises, this is the exit status of every scan that returns. Files whose
  reading raises \<^verbatim>\<open>OSError\<close> change neither the list nor the status.
\<close>

lemma main_returns:
  "main w = Inr k \<Longrightarrow>
   \<exists>errs. check_links w ''.'' = Inr errs \<and> k = (if errs = [] then 0 else 1)"
  by (auto simp: main_def split: sum.splits option.splits if_splits)

lemma exit_status_of_list:
  assumes "check_links w ''.'' = Inr errs" and "\<forall>s. fs_print w s = None"
  shows "exit_status w = (if errs = [] then 0 else 1)"
  using assms by (simp add: exit_status_def main_def print_lines_quiet)

lemma unreadable_files_ignored:
  "check_links (w\<lparr>fs_rglob := \<lambda>r. filter (\<lambda>s. \<not> unreadable w (Path s)) (fs_rglob w r)\<rparr>) ''.''
     = check_links w ''.'' \<and>
   exit_status (w\<lparr>fs_rglob := \<lambda>r. filter (\<lambda>s. \<not> unreadable w (Path s)) (fs_rglob w r)\<rparr>)
     = exit_status w"
  using main_rglob [OF check_links_readable, of w] check_links_readable [of w "''.''"]
  by (simp add: exit_status_def)

lemma check_link_complete:
  assumes "check_link w f l s = Inr s'" and "\<not> passed_over l" and "check_key f l \<notin> checked s"
  shows "checked s' = insert (check_key f l) (checked s) \<and>
         (\<forall>e. reported w f l e \<longrightarrow> e \<in> set (errors s'))"
  using assms(1) unfolding check_link_fresh [OF assms(2,3)] reported_def Let_def
  by (auto simp: check_wiki_style_link_def split: if_splits sum.splits option.splits prod.splits)

lemma check_link_unchanged:
  assumes "check_link w f l s = Inr s'" and "passed_over l \<or> check_key f l \<in> checked s"
  shows "s' = s"
  using assms check_link_passed_over [of l w f s] check_link_checked [of f l s w] by auto

lemma check_files_accounted:
  assumes "check_files w files st = Inr st'" and "accounted w files st"
  shows "accounted w files st'"
proof (rule check_files_invariant [OF assms(1), of "accounted w files"])
  show "accounted w files st" by (rule assms(2))
next
  fix f content t l s s'
  assume f: "f \<in> set files" and i: "accounted w files s" and c: "check_link w f l s = Inr s'"
  show "accounted w files s'"
  proof (cases "passed_over l \<or> check_key f l \<in> checked s")
    case True
    with check_link_unchanged [OF c] i show ?thesis by simp
  next
    case False
    then have n: "\<not> passed_over l" "check_key f l \<notin> checked s" by auto
    from check_link_complete [OF c n]
    have k: "checked s' = insert (check_key f l) (checked s)"
      and r: "\<forall>e. reported w f l e \<longrightarrow> e \<in> set (errors s')" by auto
    from check_link_mono(1) [OF c] have m: "set (errors s) \<subseteq> set (errors s')" by auto
    show ?thesis unfolding accounted_def
    proof
      fix k'
      assume "k' \<in> checked s'"
      with k have "k' = check_key f l \<or> k' \<in> checked s" by auto
      then show "\<exists>f\<in>set files. \<exists>l. k' = check_key f l \<and>
                  (\<forall>e. reported w f l e \<longrightarrow> e \<in> set (errors s'))"
      proof
        assume "k' = check_key f l"
        with f r show ?thesis by blast
      next
        assume "k' \<in> checked s"
        with i obtain f' l' where "f' \<in> set files" "k' = check_key f' l'"
          "\<forall>e. reported w f' l' e \<longrightarrow> e \<in> set (errors s)"
          unfolding accounted_def by blast
        with m show ?thesis by blast
      qed
    qed
  qed
next
  fix s :: scan_state and evs
  assume "accounted w files s"
  then show "accounted w files (s\<lparr>trace := trace s @ evs\<rparr>)" by (simp add: accounted_def)
qed

lemma check_file_links_checked_mono:
  assumes "check_file_links w f links st = Inr st'"
  shows "checked st \<subseteq> checked st'"
proof (rule check_file_links_invariant [OF assms, of "\<lambda>s. checked st \<subseteq> checked s"])
  show "checked st \<subseteq> checked st" by simp
next
  fix l s s'
  assume "checked st \<subseteq> checked s" and "check_link w f l s = Inr s'"
  with check_link_mono(2) [of w f l s s'] show "checked st \<subseteq> checked s'" by blast
qed

lemma check_files_checked_mono:
  assumes "check_files w files st = Inr st'"
  shows "checked st \<subseteq> checked st'"
proof (rule check_files_invariant [OF assms, of "\<lambda>s. checked st \<subseteq> checked s"])
  show "checked st \<subseteq> checked st" by simp
next
  fix f l s s'
  assume "checked st \<subseteq> checked s" and "check_link w f l s = Inr s'"
  with check_link_mono(2) [of w f l s s'] show "checked st \<subseteq> checked s'" by blast
next
  fix s :: scan_state and evs
  assume "checked st \<subseteq> checked s"
  then show "checked st \<subseteq> checked (s\<lparr>trace := trace s @ evs\<rparr>)" by simp
qed

lemma check_file_links_reached:
  "check_file_links w f links st = Inr st' \<Longrightarrow> (t, l) \<in> set links \<Longrightarrow> \<not> passed_over l \<Longrightarrow>
   check_key f l \<in> checked st'"
proof (induction links arbitrary: st)
  case Nil
  then show ?case by simp
next
  case (Cons x links)
  obtain t' l' where x: "x = (t', l')" by (cases x) auto
  from Cons.prems(1) x obtain s1 where s1: "check_link w f l' st = Inr s1"
    and r: "check_file_links w f links s1 = Inr st'"
    by (auto split: sum.splits)
  show ?case
  proof (cases "(t, l) \<in> set links")
    case True
    from Cons.IH [OF r True Cons.prems(3)] show ?thesis .
  next
    case False
    with Cons.prems(2) x have "l' = l" by simp
    with s1 Cons.prems(3) have "check_key f l \<in> checked s1" by (simp add: check_link_new)
    with check_file_links_checked_mono [OF r] show ?thesis by blast
  qed
qed

lemma check_files_reached:
  "check_files w files st = Inr st' \<Longrightarrow> f \<in> set files \<Longrightarrow> \<not> skipped f \<Longrightarrow>
   fs_read w f = Inr content \<Longrightarrow> (t, l) \<in> set (find_markdown_links content) \<Longrightarrow>
   \<not> passed_over l \<Longrightarrow> check_key f l \<in> checked st'"
proof (induction files arbitrary: st)
  case Nil
  then show ?case by simp
next
  case (Cons g files)
  show ?case
  proof (cases "skipped g")
    case True
    with Cons show ?thesis by auto
  next
    case False
    show ?thesis
    proof (cases "fs_read w g")
      case (Inl err)
      with Cons False show ?thesis by (cases err) (auto simp: Let_def)
    next
      case (Inr c)
      from Inr False Cons.prems(1) obtain s2 where
        s2: "check_file_links w g (find_markdown_links c) (st\<lparr>trace := trace st @ [Open g]\<rparr>) = Inr s2"
        and r: "check_files w files s2 = Inr st'"
        by (auto simp: Let_def split: sum.splits)
      show ?thesis
      proof (cases "f = g")
        case True
        with Inr Cons.prems(4) have "c = content" by simp
        with s2 True Cons.prems(5,6) have "check_key f l \<in> checked s2"
          by (auto dest: check_file_links_reached)
        with check_files_checked_mono [OF r] show ?thesis by blast
      next
        case False
        with Cons.prems(2) have "f \<in> set files" by simp
        from Cons.IH [OF r this Cons.prems(3,4,5,6)] show ?thesis .
      qed
    qed
  qed
qed

lemma filter_one: "x \<in> set xs \<Longrightarrow> distinct xs \<Longrightarrow> filter (\<lambda>y. y = x) xs = [x]"
proof (induction xs)
  case Nil
  then show ?case by simp
next
  case (Cons a xs)
  show ?case
  proof (cases "a = x")
    case True
    with Cons.prems have "x \<notin> set xs" by simp
    then have "filter (\<lambda>y. y = x) xs = []" by (auto simp: filter_empty_conv)
    with True show ?thesis by simp
  next
    case False
    with Cons show ?thesis by simp
  qed
qed

text \<open>
  A link that the loop does not pass over gets its record, unless a link of another
  file has the same key.
\<close>

lemma reported_unless_key_clash:
  assumes "scan w root_dir = Inr st"
    and "md_file \<in> set (rglob_md w (Path root_dir))" and "\<not> skipped md_file"
    and "fs_read w md_file = Inr content" and "(t, link) \<in> set (find_markdown_links content)"
    and "\<not> passed_over link" and "reported w md_file link e"
    and "\<forall>f\<in>set (rglob_md w (Path root_dir)). \<forall>l.
           check_key f l = check_key md_file link \<longrightarrow> f = md_file \<and> l = link"
  shows "e \<in> set (errors st) \<and>
         filter (\<lambda>x. e_file x = str md_file \<and> e_link x = link) (errors st) = [e]"
proof -
  let ?files = "rglob_md w (Path root_dir)"
  let ?init = "\<lparr>errors = [], checked = {}, trace = []\<rparr>"
  from assms(1) have c: "check_files w ?files ?init = Inr st" by (simp add: scan_def)
  have "accounted w ?files ?init" by (simp add: accounted_def)
  from check_files_accounted [OF c this] have a: "accounted w ?files st" .
  from check_files_reached [OF c assms(2,3,4,5,6)] have "check_key md_file link \<in> checked st" .
  with a obtain f l where "f \<in> set ?files" "check_key md_file link = check_key f l"
    "\<forall>e. reported w f l e \<longrightarrow> e \<in> set (errors st)"
    unfolding accounted_def by blast
  with assms(7,8) have e: "e \<in> set (errors st)" by metis
  have u: "x = e" if x: "x \<in> set (errors st)" "e_file x = str md_file" "e_link x = link" for x
  proof -
    from check_files_keys [OF c] have d: "distinct (map record_key (errors st))" by simp
    from reported_fields [OF assms(7)] x have "record_key x = record_key e"
      by (simp add: record_key_def)
    with d x(1) e show ?thesis by (simp add: distinct_map inj_on_def)
  qed
  from check_files_keys [OF c] have "distinct (errors st)" by (simp add: distinct_map)
  with e have "filter (\<lambda>x. x = e) (errors st) = [e]"
    by (rule filter_one)
  moreover have "filter (\<lambda>x. e_file x = str md_file \<and> e_link x = link) (errors st) =
      filter (\<lambda>x. x = e) (errors st)"
    using u reported_fields [OF assms(7)] by (intro filter_cong) auto
  ultimately show ?thesis using e by simp
qed

subsection \<open>The example worlds, evaluated\<close>

lemmas scan_eval =
  scan_def rglob_md_def Path_def path_root_def startswith_def
  skipped_def str_in_def str_def sublist_code Let_def match_link_def check_link_def
  is_external_link_def is_anchor_only_def has_liquid_template_def check_key_def
  is_wiki_style_link_def endswith_def suffix_to_prefix resolve_target_path_def
  joinpath_def parent_def lexical_resolve_def is_path_safe_def REPO_ROOT_def parents_def
  check_wiki_style_link_def lstrip_def insert_commute upt_rec

lemma demo_scan: "scan demo_world ''.'' = Inr demo_state"
  by (simp add: scan_eval demo_world_def demo_state_def demo_errors_def)

lemma demo_check_links: "check_links demo_world ''.'' = Inr demo_errors"
  by (simp add: check_links_def demo_scan demo_state_def)

lemma away_scan: "scan away_world ''.'' = Inr \<lparr>errors = [], checked = {}, trace = []\<rparr>"
  by (simp add: scan_eval away_world_def)

lemma away_repo_scan:
  "check_links away_world ''/r'' =
     Inr [\<lparr>e_file = ''/r/g.md'', e_link = ''n.md'', e_expected = ''/r/n.md'',
           e_type = ''regular''\<rparr>]"
  by code_simp

lemma clash_first:
  "check_links (clash_world [''a.md'', ''a.md:b.md'']) ''.'' =
     Inr [\<lparr>e_file = ''a.md'', e_link = ''b.md:../../../y'',
           e_expected = ''UNSAFE PATH (outside repository)'', e_type = ''security''\<rparr>]"
  by code_simp

lemma clash_second:
  "check_links (clash_world [''a.md:b.md'', ''a.md'']) ''.'' =
     Inr [\<lparr>e_file = ''a.md:b.md'', e_link = ''../../../y'',
           e_expected = ''UNSAFE PATH (outside repository)'', e_type = ''security''\<rparr>]"
  by code_simp

lemma clash_alone:
  "check_links (clash_world [''a.md:b.md'']) ''.'' =
     Inr [\<lparr>e_file = ''a.md:b.md'', e_link = ''../../../y'',
           e_expected = ''UNSAFE PATH (outside repository)'', e_type = ''security''\<rparr>]"
  by code_simp

lemma wiki_clash_first:
  "check_links (wiki_clash_world [''docs/wiki/a.md'', ''docs/wiki/a.md:b.md'']) ''.'' =
     Inr [\<lparr>e_file = ''docs/wiki/a.md'', e_link = ''b.md:P'',
           e_expected = ''docs/wiki/b.md:P.md'', e_type = ''wiki-style''\<rparr>]"
  by code_simp

lemma wiki_clash_second:
  "check_links (wiki_clash_world [''docs/wiki/a.md:b.md'', ''docs/wiki/a.md'']) ''.'' =
     Inr [\<lparr>e_file = ''docs/wiki/a.md:b.md'', e_link = ''P'',
           e_expected = ''docs/wiki/P.md'', e_type = ''wiki-style''\<rparr>]"
  by code_simp

lemma wiki_clash_alone:
  "check_links (wiki_clash_world [''docs/wiki/a.md:b.md'']) ''.'' =
     Inr [\<lparr>e_file = ''docs/wiki/a.md:b.md'', e_link = ''P'',
           e_expected = ''docs/wiki/P.md'', e_type = ''wiki-style''\<rparr>]"
  by code_simp

subsection \<open>What holds of unsafe and wiki-style links\<close>

text \<open>No path is probed for existence unless it is safe.\<close>

lemma never_probes_unsafe_path:
  assumes "scan w root_dir = Inr st" and "p \<in> set (probed (trace st))"
  shows "is_path_safe w p"
  using check_files_probed [OF assms(1) [unfolded scan_def]] assms(2) by simp

text \<open>
  A regular link of a scanned file whose target is unsafe has exactly one record, the
  security record, provided no link of another discovered file has the same key.
\<close>

lemma unsafe_link_reported_unless_key_clash:
  assumes "scan w root_dir = Inr st"
    and "md_file \<in> set (rglob_md w (Path root_dir))" and "\<not> skipped md_file"
    and "fs_read w md_file = Inr content" and "(t, link) \<in> set (find_markdown_links content)"
    and "regular_link md_file link"
    and "resolve_target_path w (hd (str_split CHR ''#'' link)) md_file = Inr None"
    and "\<forall>f\<in>set (rglob_md w (Path root_dir)). \<forall>l.
           check_key f l = check_key md_file link \<longrightarrow> f = md_file \<and> l = link"
  shows "filter (\<lambda>x. e_file x = str md_file \<and> e_link x = link) (errors st) =
           [\<lparr>e_file = str md_file, e_link = link,
             e_expected = ''UNSAFE PATH (outside repository)'', e_type = ''security''\<rparr>]"
proof -
  from assms(6) have n: "\<not> passed_over link" by (simp add: regular_link_def)
  from assms(6,7) have "reported w md_file link
      \<lparr>e_file = str md_file, e_link = link,
        e_expected = ''UNSAFE PATH (outside repository)'', e_type = ''security''\<rparr>"
    by (simp add: reported_def regular_link_def)
  from reported_unless_key_clash [OF assms(1,2,3,4,5) n this assms(8)] show ?thesis by simp
qed

text \<open>
  A wiki-style link of a scanned file whose page exists at a safe path has no record;
  one whose page is missing or unsafe has exactly one record, of type wiki-style with
  the computed path, provided no link of another discovered file has the same key.
\<close>

lemma existing_wiki_page_not_reported:
  assumes "scan w root_dir = Inr st"
    and "md_file \<in> set (rglob_md w (Path root_dir))"
    and "wiki_link md_file link"
    and "is_path_safe w (joinpath (parent md_file) (hd (str_split CHR ''#'' link) @ ''.md''))"
    and "fs_exists w (joinpath (parent md_file) (hd (str_split CHR ''#'' link) @ ''.md''))"
  shows "\<not> (\<exists>e\<in>set (errors st). e_file e = str md_file \<and> e_link e = link)"
proof
  assume "\<exists>e\<in>set (errors st). e_file e = str md_file \<and> e_link e = link"
  then obtain e where e: "e \<in> set (errors st)" and a: "e_file e = str md_file" "e_link e = link"
    by blast
  from scan_origin [OF assms(1) e]
  obtain f where f: "f \<in> set (rglob_md w (Path root_dir))" and r: "reported w f (e_link e) e"
    by (auto simp: origin_def)
  from a reported_fields [OF r] have s: "str f = str md_file" by simp
  from f assms(2) obtain x y where xy: "f = Path x" "md_file = Path y"
    by (auto simp: rglob_md_def)
  from s have "Path x = Path y" unfolding xy by (rule str_Path_inj)
  then have "f = md_file" by (simp only: xy)
  with r a have "reported w md_file link e" by simp
  with assms(3,4,5) show False
    by (simp add: reported_def wiki_link_def check_wiki_style_link_def Let_def)
qed

lemma missing_wiki_page_reported_unless_key_clash:
  assumes "scan w root_dir = Inr st"
    and "md_file \<in> set (rglob_md w (Path root_dir))" and "\<not> skipped md_file"
    and "fs_read w md_file = Inr content" and "(t, link) \<in> set (find_markdown_links content)"
    and "wiki_link md_file link"
    and "\<not> fs_exists w (joinpath (parent md_file) (hd (str_split CHR ''#'' link) @ ''.md''))"
    and "\<forall>f\<in>set (rglob_md w (Path root_dir)). \<forall>l.
           check_key f l = check_key md_file link \<longrightarrow> f = md_file \<and> l = link"
  shows "filter (\<lambda>x. e_file x = str md_file \<and> e_link x = link) (errors st) =
           [\<lparr>e_file = str md_file, e_link = link,
             e_expected = str (joinpath (parent md_file) (hd (str_split CHR ''#'' link) @ ''.md'')),
             e_type = ''wiki-style''\<rparr>]"
proof -
  from assms(6) have n: "\<not> passed_over link" by (simp add: wiki_link_def)
  from assms(6,7) have "reported w md_file link
      \<lparr>e_file = str md_file, e_link = link,
        e_expected = str (joinpath (parent md_file) (hd (str_split CHR ''#'' link) @ ''.md'')),
        e_type = ''wiki-style''\<rparr>"
    by (simp add: reported_def wiki_link_def check_wiki_style_link_def Let_def)
  from reported_unless_key_clash [OF assms(1,2,3,4,5) n this assms(8)] show ?thesis by simp
qed

section \<open>The claims\<close>

text \<open>
  C1. The claim: every regular link of a scanned file whose target lies outside the
  repository gets exactly one security record, and its target is never probed. The
  second half holds (\<open>never_probes_unsafe_path\<close>), and so does the first when no other
  file's link has the same key (\<open>unsafe_link_reported_unless_key_clash\<close>). But the key
  is the file's string, a colon and the url, which does not determine the file: in
  \<open>clash_world\<close> the files \<^verbatim>\<open>a.md\<close> and \<^verbatim>\<open>a.md:b.md\<close> each hold a regular link with an
  unsafe target, the two keys are equal, and whichever file comes second gets no
  record, though scanned alone it gets one.
\<close>

theorem unsafe_link_lost_on_key_clash:
  "regular_link (Path ''a.md'') ''b.md:../../../y'' \<and>
   resolve_target_path (clash_world []) ''b.md:../../../y'' (Path ''a.md'') = Inr None \<and>
   regular_link (Path ''a.md:b.md'') ''../../../y'' \<and>
   resolve_target_path (clash_world []) ''../../../y'' (Path ''a.md:b.md'') = Inr None \<and>
   check_key (Path ''a.md'') ''b.md:../../../y'' = check_key (Path ''a.md:b.md'') ''../../../y'' \<and>
   check_links (clash_world [''a.md'', ''a.md:b.md'']) ''.'' =
     Inr [\<lparr>e_file = ''a.md'', e_link = ''b.md:../../../y'',
           e_expected = ''UNSAFE PATH (outside repository)'', e_type = ''security''\<rparr>] \<and>
   check_links (clash_world [''a.md:b.md'', ''a.md'']) ''.'' =
     Inr [\<lparr>e_file = ''a.md:b.md'', e_link = ''../../../y'',
           e_expected = ''UNSAFE PATH (outside repository)'', e_type = ''security''\<rparr>] \<and>
   check_links (clash_world [''a.md:b.md'']) ''.'' =
     Inr [\<lparr>e_file = ''a.md:b.md'', e_link = ''../../../y'',
           e_expected = ''UNSAFE PATH (outside repository)'', e_type = ''security''\<rparr>]"
proof -
  have r1: "regular_link (Path ''a.md'') ''b.md:../../../y''"
    by code_simp
  have r2: "regular_link (Path ''a.md:b.md'') ''../../../y''"
    by code_simp
  have u1: "resolve_target_path (clash_world []) ''b.md:../../../y'' (Path ''a.md'') = Inr None"
    by code_simp
  have u2: "resolve_target_path (clash_world []) ''../../../y'' (Path ''a.md:b.md'') = Inr None"
    by code_simp
  have k: "check_key (Path ''a.md'') ''b.md:../../../y'' =
           check_key (Path ''a.md:b.md'') ''../../../y''"
    by code_simp
  from r1 r2 u1 u2 k clash_first clash_second clash_alone show ?thesis by simp
qed

text \<open>
  C2. The claim: without arguments the tool scans the repository root, two directory
  levels above its own file. The code computes that root as \<open>REPO_ROOT\<close> and uses it for
  the safety test and for root-relative links, but \<^verbatim>\<open>main\<close> calls \<^verbatim>\<open>check_links()\<close> with
  the default \<^verbatim>\<open>root_dir='.'\<close>, the working directory
  (\<open>scan_enumerates_working_directory\<close>). In \<open>away_world\<close> the tool of the repository
  \<^verbatim>\<open>/r\<close> is run from \<^verbatim>\<open>/t\<close>: the scan finds nothing and \<^verbatim>\<open>main\<close> returns 0, while a scan
  of the repository root reports the broken link of \<^verbatim>\<open>/r/g.md\<close>. In \<open>outside_world\<close> the
  file \<^verbatim>\<open>k.md\<close> of \<^verbatim>\<open>/t\<close> is scanned and its link to the existing \<^verbatim>\<open>h.md\<close> is reported
  as leaving the repository.
\<close>

theorem scan_root_is_not_repo_root:
  "REPO_ROOT away_world = Path ''/r'' \<and>
   fs_resolve away_world (Path ''.'') = Inr (Path ''/t'') \<and>
   Path ''.'' \<noteq> REPO_ROOT away_world \<and>
   main away_world = Inr 0 \<and>
   check_links away_world (str (REPO_ROOT away_world)) =
     Inr [\<lparr>e_file = ''/r/g.md'', e_link = ''n.md'', e_expected = ''/r/n.md'',
           e_type = ''regular''\<rparr>] \<and>
   REPO_ROOT outside_world = Path ''/r'' \<and>
   fs_resolve outside_world (Path ''.'') = Inr (Path ''/t'') \<and>
   fs_exists outside_world (Path ''/t/h.md'') \<and>
   check_links outside_world ''.'' =
     Inr [\<lparr>e_file = ''k.md'', e_link = ''h.md'',
           e_expected = ''UNSAFE PATH (outside repository)'', e_type = ''security''\<rparr>]"
proof -
  have r: "REPO_ROOT away_world = Path ''/r''"
    by code_simp
  have s: "str (Path ''/r'') = ''/r''" by code_simp
  have t: "fs_resolve away_world (Path ''.'') = Inr (Path ''/t'')"
    by code_simp
  have n: "Path ''.'' \<noteq> Path ''/r''" by code_simp
  have m: "main away_world = Inr 0" by code_simp
  have r': "REPO_ROOT outside_world = Path ''/r''"
    by code_simp
  have t': "fs_resolve outside_world (Path ''.'') = Inr (Path ''/t'')"
    by code_simp
  have e': "fs_exists outside_world (Path ''/t/h.md'')"
    by (simp add: outside_world_def)
  have c': "check_links outside_world ''.'' =
     Inr [\<lparr>e_file = ''k.md'', e_link = ''h.md'',
           e_expected = ''UNSAFE PATH (outside repository)'', e_type = ''security''\<rparr>]"
    by code_simp
  from r s t n m away_repo_scan r' t' e' c' show ?thesis by simp
qed

text \<open>
  C3. The claim: a wiki-style link resolves to the directory of its file joined with
  the link text and \<^verbatim>\<open>.md\<close>; when that page exists at a safe path there is no record,
  and when it does not exist there is a record of type wiki-style with that path. The
  first two parts hold (\<open>existing_wiki_page_not_reported\<close>), and so does the third when
  no other file's link has the same key
  (\<open>missing_wiki_page_reported_unless_key_clash\<close>). In \<open>wiki_clash_world\<close> the pages
  \<^verbatim>\<open>docs/wiki/a.md\<close> and \<^verbatim>\<open>docs/wiki/a.md:b.md\<close> each hold a wiki-style link to a
  missing page, the two keys are equal, and whichever page comes second gets no
  record, though scanned alone it gets one.
\<close>

theorem missing_wiki_page_lost_on_key_clash:
  "wiki_link (Path ''docs/wiki/a.md'') ''b.md:P'' \<and>
   wiki_link (Path ''docs/wiki/a.md:b.md'') ''P'' \<and>
   fs_exists (wiki_clash_world []) (joinpath (parent (Path ''docs/wiki/a.md'')) ''b.md:P.md'')
     = False \<and>
   fs_exists (wiki_clash_world []) (joinpath (parent (Path ''docs/wiki/a.md:b.md'')) ''P.md'')
     = False \<and>
   check_key (Path ''docs/wiki/a.md'') ''b.md:P'' = check_key (Path ''docs/wiki/a.md:b.md'') ''P'' \<and>
   check_links (wiki_clash_world [''docs/wiki/a.md'', ''docs/wiki/a.md:b.md'']) ''.'' =
     Inr [\<lparr>e_file = ''docs/wiki/a.md'', e_link = ''b.md:P'',
           e_expected = ''docs/wiki/b.md:P.md'', e_type = ''wiki-style''\<rparr>] \<and>
   check_links (wiki_clash_world [''docs/wiki/a.md:b.md'', ''docs/wiki/a.md'']) ''.'' =
     Inr [\<lparr>e_file = ''docs/wiki/a.md:b.md'', e_link = ''P'',
           e_expected = ''docs/wiki/P.md'', e_type = ''wiki-style''\<rparr>] \<and>
   check_links (wiki_clash_world [''docs/wiki/a.md:b.md'']) ''.'' =
     Inr [\<lparr>e_file = ''docs/wiki/a.md:b.md'', e_link = ''P'',
           e_expected = ''docs/wiki/P.md'', e_type = ''wiki-style''\<rparr>]"
proof -
  have w1: "wiki_link (Path ''docs/wiki/a.md'') ''b.md:P''"
    by code_simp
  have w2: "wiki_link (Path ''docs/wiki/a.md:b.md'') ''P''"
    by code_simp
  have e: "fs_exists (wiki_clash_world []) p = False" for p
    by (simp add: wiki_clash_world_def)
  have k: "check_key (Path ''docs/wiki/a.md'') ''b.md:P'' =
           check_key (Path ''docs/wiki/a.md:b.md'') ''P''"
    by code_simp
  from w1 w2 e k wiki_clash_first wiki_clash_second wiki_clash_alone show ?thesis by simp
qed

text \<open>
  C4. A link that is external (starts with \<^verbatim>\<open>http://\<close>, \<^verbatim>\<open>https://\<close> or \<^verbatim>\<open>mailto:\<close>),
  anchor-only (starts with \<^verbatim>\<open>#\<close>) or templated (contains \<^verbatim>\<open>{{\<close> or \<^verbatim>\<open>}}\<close>) never
  appears in the error list, whatever the file system holds: no record of the list
  that \<open>check_links\<close> returns has such a link.
\<close>

theorem skipped_classes_never_reported:
  assumes "check_links w root_dir = Inr errs" and "e \<in> set errs"
  shows "\<not> is_external_link (e_link e) \<and> \<not> is_anchor_only (e_link e) \<and>
         \<not> has_liquid_template (e_link e)"
proof -
  from assms(1) obtain st where st: "scan w root_dir = Inr st" "errors st = errs"
    by (rule scan_errors)
  with assms(2) have "origin w (rglob_md w (Path root_dir)) e" by (simp add: scan_origin)
  then have "\<not> passed_over (e_link e)" by (auto simp: origin_def)
  then show ?thesis by (simp add: passed_over_def)
qed

theorem skipped_classes_never_reported_witness:
  "check_links demo_world ''.'' = Inr demo_errors \<and> hd demo_errors \<in> set demo_errors \<and>
   \<not> is_external_link (e_link (hd demo_errors)) \<and>
   \<not> is_anchor_only (e_link (hd demo_errors)) \<and>
   \<not> has_liquid_template (e_link (hd demo_errors))"
proof -
  have h: "hd demo_errors \<in> set demo_errors" by (simp add: demo_errors_def)
  from skipped_classes_never_reported [OF demo_check_links h] demo_check_links h
  show ?thesis by simp
qed

text \<open>
  C5. For a link whose anchor-stripped url starts with \<^verbatim>\<open>/\<close>, the target that
  \<open>resolve_target_path\<close> computes is the repository root joined with \<^verbatim>\<open>docs\<close> joined
  with the url without its leading slashes: it has the root of \<open>REPO_ROOT\<close> and the
  parts of \<open>REPO_ROOT\<close>, then \<^verbatim>\<open>docs\<close>, then the parts of the stripped url. The function
  returns this target when it is safe and \<^verbatim>\<open>None\<close> otherwise, and raises nothing.
\<close>

theorem root_relative_under_docs:
  assumes "startswith (hd (str_split CHR ''#'' link)) ''/''"
    and "target = joinpath (joinpath (REPO_ROOT w) ''docs'')
                    (lstrip CHR ''/'' (hd (str_split CHR ''#'' link)))"
  shows "resolve_target_path w link file_path =
           Inr (if is_path_safe w target then Some target else None) \<and>
         root target = root (REPO_ROOT w) \<and>
         parts target = parts (REPO_ROOT w) @ [''docs''] @
           parts (Path (lstrip CHR ''/'' (hd (str_split CHR ''#'' link))))"
proof -
  have d: "Path ''docs'' = \<lparr>root = [], parts = [''docs'']\<rparr>"
    by (simp add: Path_def path_root_def startswith_def)
  have r: "root (Path (lstrip CHR ''/'' s)) = []" for s
    by (simp add: Path_def lstrip_not_rooted)
  from assms show ?thesis
    by (simp add: resolve_target_path_def Let_def joinpath_def d r)
qed

theorem root_relative_under_docs_witness:
  "startswith (hd (str_split CHR ''#'' ''//w/H.md#a'')) ''/'' \<and>
   resolve_target_path demo_world ''//w/H.md#a'' (Path ''g.md'') =
     Inr (Some \<lparr>root = ''/'', parts = [''r'', ''docs'', ''w'', ''H.md'']\<rparr>)"
proof -
  have h: "startswith (hd (str_split CHR ''#'' ''//w/H.md#a'')) ''/''"
    by (simp add: startswith_def)
  have s: "is_path_safe demo_world \<lparr>root = ''/'', parts = [''r'', ''docs'', ''w'', ''H.md'']\<rparr>"
    by code_simp
  have t: "joinpath (joinpath (REPO_ROOT demo_world) ''docs'')
             (lstrip CHR ''/'' (hd (str_split CHR ''#'' ''//w/H.md#a''))) =
           \<lparr>root = ''/'', parts = [''r'', ''docs'', ''w'', ''H.md'']\<rparr>"
    by code_simp
  from root_relative_under_docs [OF h refl, of demo_world "Path ''g.md''"] h s
  show ?thesis unfolding t by simp
qed

text \<open>
  C6. A regular link of a scanned file whose resolved target is inside the repository
  (\<open>resolve_target_path\<close> returns it) and exists gets no record: no record of the
  result names that file and that link.
\<close>

theorem existing_target_not_reported:
  assumes "check_links w root_dir = Inr errs"
    and "md_file \<in> set (rglob_md w (Path root_dir))"
    and "regular_link md_file link"
    and "resolve_target_path w (hd (str_split CHR ''#'' link)) md_file = Inr (Some target)"
    and "fs_exists w target"
  shows "\<not> (\<exists>e\<in>set errs. e_file e = str md_file \<and> e_link e = link)"
proof
  assume "\<exists>e\<in>set errs. e_file e = str md_file \<and> e_link e = link"
  then obtain e where e: "e \<in> set errs" and a: "e_file e = str md_file" "e_link e = link"
    by blast
  from assms(1) obtain st where st: "scan w root_dir = Inr st" "errors st = errs"
    by (rule scan_errors)
  with e have "origin w (rglob_md w (Path root_dir)) e" by (simp add: scan_origin)
  then obtain f where f: "f \<in> set (rglob_md w (Path root_dir))" and r: "reported w f (e_link e) e"
    by (auto simp: origin_def)
  from a reported_fields [OF r] have s: "str f = str md_file" by simp
  from f assms(2) obtain x y where xy: "f = Path x" "md_file = Path y"
    by (auto simp: rglob_md_def)
  from s have "Path x = Path y" unfolding xy by (rule str_Path_inj)
  then have "f = md_file" by (simp only: xy)
  with r a have "reported w md_file link e" by simp
  with assms(3,4,5) show False by (simp add: reported_def regular_link_def)
qed

theorem existing_target_not_reported_witness:
  "check_links demo_world ''.'' = Inr demo_errors \<and>
   Path ''g.md'' \<in> set (rglob_md demo_world (Path ''.'')) \<and>
   regular_link (Path ''g.md'') ''h.md'' \<and>
   resolve_target_path demo_world (hd (str_split CHR ''#'' ''h.md'')) (Path ''g.md'') =
     Inr (Some (Path ''/r/h.md'')) \<and>
   fs_exists demo_world (Path ''/r/h.md'') \<and>
   \<not> (\<exists>e\<in>set demo_errors. e_file e = str (Path ''g.md'') \<and> e_link e = ''h.md'')"
proof -
  have h2: "Path ''g.md'' \<in> set (rglob_md demo_world (Path ''.''))"
    by (simp add: rglob_md_def demo_world_def)
  have h3: "regular_link (Path ''g.md'') ''h.md''"
    by code_simp
  have h4: "resolve_target_path demo_world (hd (str_split CHR ''#'' ''h.md'')) (Path ''g.md'') =
     Inr (Some (Path ''/r/h.md''))"
    by code_simp
  have h5: "fs_exists demo_world (Path ''/r/h.md'')"
    by code_simp
  from existing_target_not_reported [OF demo_check_links h2 h3 h4 h5] demo_check_links h2 h3 h4 h5
  show ?thesis by blast
qed

text \<open>
  C7. The list that \<open>check_links\<close> returns holds at most one record for a file and a
  raw url: the pairs of file and link of its records are pairwise distinct, however
  often a link occurs in a file.
\<close>

theorem one_record_per_file_and_link:
  assumes "check_links w root_dir = Inr errs"
  shows "distinct (map (\<lambda>e. (e_file e, e_link e)) errs)"
proof -
  from assms obtain st where st: "scan w root_dir = Inr st" "errors st = errs"
    by (rule scan_errors)
  from check_files_keys [OF st(1) [unfolded scan_def]] st(2)
  have d: "distinct (map record_key errs)" by simp
  have "record_key = (\<lambda>(f, l). f @ '':'' @ l) \<circ> (\<lambda>e. (e_file e, e_link e))"
    by (simp add: fun_eq_iff record_key_def)
  with d have "distinct (map ((\<lambda>(f, l). f @ '':'' @ l) \<circ> (\<lambda>e. (e_file e, e_link e))) errs)"
    by simp
  then have "distinct (map (\<lambda>(f, l). f @ '':'' @ l) (map (\<lambda>e. (e_file e, e_link e)) errs))"
    by (simp only: map_map)
  then show ?thesis unfolding distinct_map [of "\<lambda>(f, l). f @ '':'' @ l"] by (rule conjunct1)
qed

theorem one_record_per_file_and_link_witness:
  "check_links demo_world ''.'' = Inr demo_errors \<and>
   length (find_markdown_links
     ''[a](http://x) [b](n.md) [c](h.md) [b](n.md) [d](../../p)'') = 5 \<and>
   distinct (map (\<lambda>e. (e_file e, e_link e)) demo_errors)"
proof -
  have "length (find_markdown_links
     ''[a](http://x) [b](n.md) [c](h.md) [b](n.md) [d](../../p)'') = 5"
    by (simp add: match_link_def)
  with one_record_per_file_and_link [OF demo_check_links] demo_check_links
  show ?thesis by simp
qed

text \<open>
  C8. The claim: the exit status of the program is 0 exactly when \<open>check_links\<close>
  returns the empty list and 1 exactly when it returns a list with a record; unreadable
  files do not count. The last part holds (\<open>unreadable_files_ignored\<close>), and so do the
  two equivalences on every run in which nothing raises (\<open>main_returns\<close>,
  \<open>exit_status_of_list\<close>). But the program is \<^verbatim>\<open>sys.exit(main())\<close>, and an exception that
  leaves \<^verbatim>\<open>main\<close> ends it with status 1. In \<open>nul_world\<close> the \<^verbatim>\<open>resolve()\<close> of a relative
  link, which stands outside every \<^verbatim>\<open>try\<close>, raises: \<open>check_links\<close> returns no list and
  the status is 1. In \<open>ascii_world\<close> \<open>check_links\<close> returns the empty list, the
  \<^verbatim>\<open>print\<close> of the line of success raises, and the status is 1, not 0.
\<close>

theorem exit_status_one_without_errors:
  "(''x'', ''a'' @ [CHR 0x00] @ ''b'') \<in> set (find_markdown_links (''[x](a'' @ [CHR 0x00] @ ''b)'')) \<and>
   regular_link (Path ''g.md'') (''a'' @ [CHR 0x00] @ ''b'') \<and>
   check_links nul_world ''.'' = Inl (ValueError ''embedded null byte'') \<and>
   main nul_world = Inl (ValueError ''embedded null byte'') \<and>
   exit_status nul_world = 1 \<and>
   check_links ascii_world ''.'' = Inr [] \<and>
   main ascii_world = Inl (ValueError ''codec cannot encode character'') \<and>
   exit_status ascii_world = 1"
proof -
  have l: "(''x'', ''a'' @ [CHR 0x00] @ ''b'') \<in>
           set (find_markdown_links (''[x](a'' @ [CHR 0x00] @ ''b)''))"
    by code_simp
  have g: "regular_link (Path ''g.md'') (''a'' @ [CHR 0x00] @ ''b'')"
    by code_simp
  have c: "check_links nul_world ''.'' = Inl (ValueError ''embedded null byte'')"
    by code_simp
  have m: "main nul_world = Inl (ValueError ''embedded null byte'')"
    by code_simp
  have c': "check_links ascii_world ''.'' = Inr []"
    by code_simp
  have m': "main ascii_world = Inl (ValueError ''codec cannot encode character'')"
    by code_simp
  from l g c m c' m' show ?thesis by (simp add: exit_status_def)
qed

text \<open>
  C9. The url of every extracted link is non-empty, and its part before the first
  \<^verbatim>\<open>#\<close> is empty exactly when the url starts with \<^verbatim>\<open>#\<close>. So for an extracted link that
  is not anchor-only the test \<^verbatim>\<open>if not clean_link\<close> of the loop is false: that branch is
  never taken.
\<close>

theorem empty_clean_link_unreachable:
  assumes "(t, url) \<in> set (find_markdown_links content)"
  shows "url \<noteq> [] \<and> (hd (str_split CHR ''#'' url) = [] \<longleftrightarrow> is_anchor_only url) \<and>
         (\<not> is_anchor_only url \<longrightarrow> hd (str_split CHR ''#'' url) \<noteq> [])"
proof -
  from find_markdown_links_url [OF assms] have n: "url \<noteq> []" by simp
  then obtain c cs where "url = c # cs" by (cases url) auto
  then have "hd (str_split CHR ''#'' url) = [] \<longleftrightarrow> is_anchor_only url"
    by (simp add: hd_str_split is_anchor_only_def startswith_def)
  with n show ?thesis by simp
qed

theorem empty_clean_link_unreachable_witness:
  "(''a'', ''b#c'') \<in> set (find_markdown_links ''[a](b#c) [d](#e)'') \<and>
   \<not> is_anchor_only ''b#c'' \<and> hd (str_split CHR ''#'' ''b#c'') \<noteq> [] \<and>
   (''d'', ''#e'') \<in> set (find_markdown_links ''[a](b#c) [d](#e)'') \<and>
   is_anchor_only ''#e'' \<and> hd (str_split CHR ''#'' ''#e'') = []"
proof -
  have h1: "(''a'', ''b#c'') \<in> set (find_markdown_links ''[a](b#c) [d](#e)'')"
    by (simp add: match_link_def)
  have h2: "(''d'', ''#e'') \<in> set (find_markdown_links ''[a](b#c) [d](#e)'')"
    by (simp add: match_link_def)
  have a1: "\<not> is_anchor_only ''b#c''" and a2: "is_anchor_only ''#e''"
    by (simp_all add: is_anchor_only_def startswith_def)
  from empty_clean_link_unreachable [OF h1] empty_clean_link_unreachable [OF h2] h1 h2 a1 a2
  show ?thesis by blast
qed

text \<open>
  C10. Exclusion is by substring of the path string. A discovered file whose string
  contains \<^verbatim>\<open>node_modules\<close>, \<^verbatim>\<open>.git\<close> or \<^verbatim>\<open>docs/audit\<close> anywhere is passed over
  entirely: the scan of a list of files is the scan of the list without these files;
  the files a scan opens are exactly the others, in order; no record of the result
  names an excluded file. In particular a file with a path component \<^verbatim>\<open>.github\<close> is
  excluded, since its string contains \<^verbatim>\<open>.git\<close>.
\<close>

theorem exclusion_by_substring:
  "check_files w files st =
     check_files w (filter (\<lambda>f. \<not> (str_in ''node_modules'' (str f) \<or> str_in ''.git'' (str f) \<or>
                                  str_in ''docs/audit'' (str f))) files) st \<and>
   (scan w root_dir = Inr st' \<longrightarrow>
      opened (trace st') =
        filter (\<lambda>f. \<not> (str_in ''node_modules'' (str f) \<or> str_in ''.git'' (str f) \<or>
                       str_in ''docs/audit'' (str f))) (rglob_md w (Path root_dir)) \<and>
      (\<forall>e\<in>set (errors st'). \<not> (str_in ''node_modules'' (e_file e) \<or> str_in ''.git'' (e_file e) \<or>
                       str_in ''docs/audit'' (e_file e)))) \<and>
   (''.github'' \<in> set (parts f) \<longrightarrow> str_in ''.git'' (str f))"
proof -
  have sk: "(\<lambda>f. \<not> (str_in ''node_modules'' (str f) \<or> str_in ''.git'' (str f) \<or>
                  str_in ''docs/audit'' (str f))) = (\<lambda>f. \<not> skipped f)"
    by (simp add: fun_eq_iff skipped_def)
  have a: "check_files w files st = check_files w (filter (\<lambda>f. \<not> skipped f) files) st"
    by (simp only: check_files_skip)
  have b: "opened (trace st') = filter (\<lambda>f. \<not> skipped f) (rglob_md w (Path root_dir))"
    if "scan w root_dir = Inr st'"
    using check_files_opened [OF that [unfolded scan_def]] by simp
  have c: "\<not> (str_in ''node_modules'' (e_file e) \<or> str_in ''.git'' (e_file e) \<or>
               str_in ''docs/audit'' (e_file e))"
    if s: "scan w root_dir = Inr st'" and e: "e \<in> set (errors st')" for e
  proof -
    from scan_origin [OF s e] obtain f' where "\<not> skipped f'" "reported w f' (e_link e) e"
      by (auto simp: origin_def)
    with reported_fields [of w f' "e_link e" e] show ?thesis by (simp add: skipped_def)
  qed
  from a b c github_skipped [of f] show ?thesis unfolding sk by blast
qed

theorem exclusion_by_substring_witness:
  "scan demo_world ''.'' = Inr demo_state \<and>
   rglob_md demo_world (Path ''.'') =
     [Path ''g.md'', Path ''docs/wiki/H.md'', Path ''.github/x.md'', Path ''l.md''] \<and>
   opened (trace demo_state) = [Path ''g.md'', Path ''docs/wiki/H.md'', Path ''l.md''] \<and>
   ''.github'' \<in> set (parts (Path ''.github/x.md'')) \<and>
   str_in ''.git'' (str (Path ''.github/x.md''))"
proof -
  have r: "rglob_md demo_world (Path ''.'') =
     [Path ''g.md'', Path ''docs/wiki/H.md'', Path ''.github/x.md'', Path ''l.md'']"
    by (simp add: rglob_md_def demo_world_def)
  have g: "''.github'' \<in> set (parts (Path ''.github/x.md''))"
    by (simp add: Path_def)
  have f: "filter (\<lambda>f. \<not> (str_in ''node_modules'' (str f) \<or> str_in ''.git'' (str f) \<or>
                            str_in ''docs/audit'' (str f)))
             [Path ''g.md'', Path ''docs/wiki/H.md'', Path ''.github/x.md'', Path ''l.md''] =
           [Path ''g.md'', Path ''docs/wiki/H.md'', Path ''l.md'']"
    by code_simp
  from exclusion_by_substring [of demo_world "[]" demo_state "''.''" demo_state "Path ''.github/x.md''"]
    demo_scan g
  have "opened (trace demo_state) =
          filter (\<lambda>f. \<not> (str_in ''node_modules'' (str f) \<or> str_in ''.git'' (str f) \<or>
                            str_in ''docs/audit'' (str f))) (rglob_md demo_world (Path ''.'')) \<and>
        str_in ''.git'' (str (Path ''.github/x.md''))"
    by blast
  with demo_scan r g f show ?thesis by simp
qed

end
